theory Spec2Isabelle
  imports
    Main
    "HOL-Library.Word"
    "HOL-Library.List_Lexorder"
    "HOL-Library.Multiset"
begin

section \<open>StudentIntroCoordinatorReference: account index cache and pagination\<close>

text \<open>
  A shallow embedding of \<^verbatim>\<open>scripts/serialize/StudentIntroCoordinatorReference.ts\<close>:
  the static \<^verbatim>\<open>accounts\<close> cache, \<^verbatim>\<open>prefetchAccounts\<close> (discovery, sort, swap) and
  \<^verbatim>\<open>fetchPage\<close> (optional rebuild, page slice, batch fetch, decode and skip).

  Conventions of the embedding.
  \<^item> A \<^verbatim>\<open>Buffer\<close> is a list of bytes (\<open>8 word\<close>, compared unsigned).
  \<^item> A JavaScript \<^verbatim>\<open>number\<close> that the code uses as a count or an index is an \<open>int\<close>
    (integer-valued arguments inside the safe integer range).
  \<^item> A thrown exception or a rejected promise is the \<open>Inl\<close> branch of a sum.
  \<^item> One call runs to completion before the next one starts (no interleaving of two
    asynchronous calls is modelled).
\<close>

subsection \<open>Values\<close>

type_synonym byte = "8 word"
type_synonym buffer = "byte list"

text \<open>A \<^verbatim>\<open>web3.PublicKey\<close>, kept as its base58 text.\<close>
type_synonym PublicKey = string

text \<open>
  What can be thrown: whatever the RPC layer rejects with, and the \<^verbatim>\<open>RangeError\<close> of
  \<^verbatim>\<open>Buffer.readUInt32LE\<close> on a buffer that is too short.
\<close>
datatype error = RpcError string | RangeError

subsection \<open>Library functions of the platform\<close>

text \<open>
  \<^verbatim>\<open>Array.prototype.slice(start, end)\<close> and \<^verbatim>\<open>Buffer.prototype.slice(start, end)\<close>: a
  negative bound counts from the end, every bound is clamped into \<open>[0, len]\<close>, and the
  result is empty when the final bound does not exceed the first.
\<close>
definition relative_index :: "int \<Rightarrow> int \<Rightarrow> int" where
  "relative_index len i = (if i < 0 then max (len + i) 0 else min i len)"

definition js_slice :: "'a list \<Rightarrow> int \<Rightarrow> int \<Rightarrow> 'a list" where
  "js_slice xs start fin =
     (let len = int (length xs);
          k = relative_index len start;
          final = relative_index len fin
      in take (nat (final - k)) (drop (nat k) xs))"

text \<open>
  \<^verbatim>\<open>Buffer.prototype.readUInt32LE(offset)\<close>: four bytes, least significant first; it
  throws a \<^verbatim>\<open>RangeError\<close> when the four bytes are not all inside the buffer.
\<close>
definition readUInt32LE :: "buffer \<Rightarrow> nat \<Rightarrow> error + nat" where
  "readUInt32LE buf off =
     (if length buf < off + 4 then Inl RangeError
      else Inr (unat (buf ! off) + unat (buf ! (off + 1)) * 2 ^ 8
                + unat (buf ! (off + 2)) * 2 ^ 16 + unat (buf ! (off + 3)) * 2 ^ 24))"

text \<open>
  \<^verbatim>\<open>Array.prototype.sort(comparefn)\<close>. ECMAScript fixes the result for a consistent
  comparator (the stable sort) and leaves the sequence of comparator calls to the
  engine; an exception of the comparator ends the sort and is rethrown. The model is the
  stable insertion sort: an element goes in front of the first element that it does not
  exceed (\<open>comparefn x y \<le> 0\<close>). An array of fewer than two elements is returned without
  a single call of the comparator.
\<close>
fun sort_insert :: "('a \<Rightarrow> 'a \<Rightarrow> error + int) \<Rightarrow> 'a \<Rightarrow> 'a list \<Rightarrow> error + 'a list" where
  "sort_insert comparefn x [] = Inr [x]"
| "sort_insert comparefn x (y # ys) =
     (case comparefn x y of
        Inl e \<Rightarrow> Inl e
      | Inr c \<Rightarrow>
          if c \<le> 0 then Inr (x # y # ys)
          else (case sort_insert comparefn x ys of
                  Inl e \<Rightarrow> Inl e
                | Inr zs \<Rightarrow> Inr (y # zs)))"

fun array_sort :: "('a \<Rightarrow> 'a \<Rightarrow> error + int) \<Rightarrow> 'a list \<Rightarrow> error + 'a list" where
  "array_sort comparefn [] = Inr []"
| "array_sort comparefn (x # xs) =
     (case array_sort comparefn xs of
        Inl e \<Rightarrow> Inl e
      | Inr ys \<Rightarrow> sort_insert comparefn x ys)"

text \<open>\<^verbatim>\<open>new TextEncoder().encode(search)\<close>: the UTF-8 bytes of the text.\<close>
definition text_encode :: "string \<Rightarrow> buffer" where
  "text_encode s = map of_char s"

subsection \<open>The ledger client\<close>

text \<open>
  One entry of the answer of \<^verbatim>\<open>getProgramAccounts\<close>: the key of the account and
  \<^verbatim>\<open>account.data\<close>, which holds only the requested data slice.
\<close>
record ProgramAccount =
  pubkey :: PublicKey
  data :: buffer

text \<open>
  A \<^verbatim>\<open>memcmp\<close> filter: the offset and the bytes to compare with. The source sends the
  bytes in base58 (\<^verbatim>\<open>bs58.encode\<close>); the model keeps the bytes that text denotes.
\<close>
datatype memcmp = Memcmp nat buffer

text \<open>
  The two calls the coordinator makes on a \<^verbatim>\<open>web3.Connection\<close>. Each may reject
  (\<open>Inl\<close>). \<^verbatim>\<open>getProgramAccounts\<close> takes the program id, the data slice (offset, length)
  and the filters; \<^verbatim>\<open>getMultipleAccountsInfo\<close> answers one entry per key, in the order of
  the keys: the data of the account, or \<open>None\<close> for an account that does not exist.
\<close>
record Connection =
  getProgramAccounts :: "string \<Rightarrow> nat \<times> nat \<Rightarrow> memcmp list \<Rightarrow> error + ProgramAccount list"
  getMultipleAccountsInfo :: "PublicKey list \<Rightarrow> error + buffer option list"

text \<open>A network round trip, as it is recorded in the state below.\<close>
datatype rpc_call =
  GetProgramAccounts string "nat \<times> nat" "memcmp list"
| GetMultipleAccountsInfo "PublicKey list"

subsection \<open>The coordinator\<close>

text \<open>
  The static state of the class is the field \<^verbatim>\<open>accounts\<close>. The second field is not in the
  source: it records, in order, the round trips made on the connection, so that a
  statement can say that a call was or was not made.
\<close>
record Coordinator =
  accounts :: "PublicKey list"
  rpc_log :: "rpc_call list"

definition STUDENT_INTRO_PROGRAM_ID :: string where
  "STUDENT_INTRO_PROGRAM_ID = ''HdE95RSVsdb315jfJtaykXhXY478h53X6okDupVfY9yf''"

text \<open>The \<^verbatim>\<open>filters\<close> option of the discovery call.\<close>
definition search_filters :: "string \<Rightarrow> memcmp list" where
  "search_filters search = (if search = [] then [] else [Memcmp 5 (text_encode search)])"

text \<open>
  The loop of the comparator:
  \<^verbatim>\<open>for (let i = 0; i < len; i++) { if (dataA[i] < dataB[i]) return -1; if (dataA[i] > dataB[i]) return 1; }\<close>
  followed by \<^verbatim>\<open>return dataA.length - dataB.length\<close>.
\<close>
function compare_bytes :: "buffer \<Rightarrow> buffer \<Rightarrow> nat \<Rightarrow> nat \<Rightarrow> int" where
  "compare_bytes dataA dataB len i =
     (if i < len then
        (if dataA ! i < dataB ! i then - 1
         else if dataA ! i > dataB ! i then 1
         else compare_bytes dataA dataB len (i + 1))
      else int (length dataA) - int (length dataB))"
  by pat_completeness auto
termination
  by (relation "measure (\<lambda>(dataA, dataB, len, i). len - i)") auto

declare compare_bytes.simps [simp del]

text \<open>The comparator given to \<^verbatim>\<open>accounts.sort\<close> in \<^verbatim>\<open>prefetchAccounts\<close>.\<close>
definition sort_compare :: "ProgramAccount \<Rightarrow> ProgramAccount \<Rightarrow> error + int" where
  "sort_compare a b =
     (case readUInt32LE (data a) 0 of
        Inl e \<Rightarrow> Inl e
      | Inr lengthA \<Rightarrow>
          (case readUInt32LE (data b) 0 of
             Inl e \<Rightarrow> Inl e
           | Inr lengthB \<Rightarrow>
               (let dataA = js_slice (data a) 4 (4 + int lengthA);
                    dataB = js_slice (data b) 4 (4 + int lengthB);
                    len = min (length dataA) (length dataB)
                in Inr (compare_bytes dataA dataB len 0))))"

text \<open>
  \<^verbatim>\<open>prefetchAccounts(connection, search)\<close>: the discovery call, the sort, and only then
  the assignment to \<^verbatim>\<open>this.accounts\<close>.
\<close>
definition prefetchAccounts :: "Connection \<Rightarrow> string \<Rightarrow> Coordinator \<Rightarrow> (error + unit) \<times> Coordinator" where
  "prefetchAccounts connection search st =
     (let st1 = st\<lparr>rpc_log := rpc_log st
                  @ [GetProgramAccounts STUDENT_INTRO_PROGRAM_ID (1, 12) (search_filters search)]\<rparr>
      in case getProgramAccounts connection STUDENT_INTRO_PROGRAM_ID (1, 12) (search_filters search) of
           Inl e \<Rightarrow> (Inl e, st1)
         | Inr accts \<Rightarrow>
             (case array_sort sort_compare accts of
                Inl e \<Rightarrow> (Inl e, st1)
              | Inr sorted_accts \<Rightarrow> (Inr (), st1\<lparr>accounts := map pubkey sorted_accts\<rparr>)))"

text \<open>
  \<^verbatim>\<open>this.accounts.slice((page - 1) * perPage, page * perPage)\<close>
\<close>
definition paginatedPublicKeys :: "PublicKey list \<Rightarrow> int \<Rightarrow> int \<Rightarrow> PublicKey list" where
  "paginatedPublicKeys accts page perPage =
     js_slice accts ((page - 1) * perPage) (page * perPage)"

text \<open>
  The \<^verbatim>\<open>reduce\<close> of \<^verbatim>\<open>fetchPage\<close>. \<^verbatim>\<open>StudentIntroReference.deserialize\<close> is not among the
  sources; it is a parameter: it takes \<^verbatim>\<open>account?.data\<close> (\<open>None\<close> for an absent account)
  and answers a record, or \<^verbatim>\<open>null\<close> (\<open>None\<close>).
\<close>
definition studentIntros :: "(buffer option \<Rightarrow> 'r option) \<Rightarrow> buffer option list \<Rightarrow> 'r list" where
  "studentIntros deserialize accts =
     foldl (\<lambda>accum account.
              case deserialize account of
                None \<Rightarrow> accum
              | Some studentIntro \<Rightarrow> accum @ [studentIntro]) [] accts"

text \<open>\<^verbatim>\<open>fetchPage(connection, page, perPage, search, reload)\<close>\<close>
definition fetchPage ::
  "(buffer option \<Rightarrow> 'r option) \<Rightarrow> Connection \<Rightarrow> int \<Rightarrow> int \<Rightarrow> string \<Rightarrow> bool \<Rightarrow> Coordinator
     \<Rightarrow> (error + 'r list) \<times> Coordinator" where
  "fetchPage deserialize connection page perPage search reload st =
     (case (if accounts st = [] \<or> reload then prefetchAccounts connection search st
            else (Inr (), st)) of
        (Inl e, st1) \<Rightarrow> (Inl e, st1)
      | (Inr u, st1) \<Rightarrow>
          (let keys = paginatedPublicKeys (accounts st1) page perPage
           in if keys = [] then (Inr [], st1)
              else
                (let st2 = st1\<lparr>rpc_log := rpc_log st1 @ [GetMultipleAccountsInfo keys]\<rparr>
                 in case getMultipleAccountsInfo connection keys of
                      Inl e \<Rightarrow> (Inl e, st2)
                    | Inr accts \<Rightarrow> (Inr (studentIntros deserialize accts), st2))))"

subsection \<open>The layout of an account\<close>

text \<open>
  Modelled from the spec: the record layout of \<^verbatim>\<open>models/serialize/StudentIntroReference\<close>,
  which is not among the sources. A string field is a 4-byte little-endian unsigned
  length followed by exactly that many bytes; the fields are \<^verbatim>\<open>name\<close>, then \<^verbatim>\<open>message\<close>.
  The comments of \<^verbatim>\<open>prefetchAccounts\<close> place one byte in front of the name (the data
  slice starts at offset 1, the filter at offset 5).
\<close>
definition u32le :: "nat \<Rightarrow> buffer" where
  "u32le n = [of_nat n, of_nat (n div 2 ^ 8), of_nat (n div 2 ^ 16), of_nat (n div 2 ^ 24)]"

definition borsh_string :: "buffer \<Rightarrow> buffer" where
  "borsh_string s = u32le (length s) @ s"

definition account_bytes :: "byte \<Rightarrow> buffer \<Rightarrow> buffer \<Rightarrow> buffer" where
  "account_bytes initialized name message =
     initialized # borsh_string name @ borsh_string message"

text \<open>
  The \<^verbatim>\<open>dataSlice: { offset, length }\<close> option of the discovery call, as the RPC node
  applies it to the data of an account.
\<close>
definition data_slice :: "nat \<times> nat \<Rightarrow> buffer \<Rightarrow> buffer" where
  "data_slice sl bytes = take (snd sl) (drop (fst sl) bytes)"

text \<open>The entry that discovery returns for an account with the given key and data.\<close>
definition discovered :: "PublicKey \<Rightarrow> buffer \<Rightarrow> ProgramAccount" where
  "discovered k bytes = \<lparr>pubkey = k, data = data_slice (1, 12) bytes\<rparr>"

subsection \<open>Notions used in the statements\<close>

text \<open>
  The bytes the comparator compares for one account (\<^verbatim>\<open>dataA\<close> of the source), for an
  account whose data slice has its four length bytes.
\<close>
definition compared_bytes :: "ProgramAccount \<Rightarrow> buffer" where
  "compared_bytes a =
     (case readUInt32LE (data a) 0 of
        Inl e \<Rightarrow> []
      | Inr lengthA \<Rightarrow> js_slice (data a) 4 (4 + int lengthA))"

text \<open>The discovery calls among the recorded round trips, in order.\<close>
fun is_discovery :: "rpc_call \<Rightarrow> bool" where
  "is_discovery (GetProgramAccounts p sl fs) = True"
| "is_discovery (GetMultipleAccountsInfo ks) = False"

definition discovery_calls :: "Coordinator \<Rightarrow> rpc_call list" where
  "discovery_calls st = filter is_discovery (rpc_log st)"

definition batch_calls :: "Coordinator \<Rightarrow> rpc_call list" where
  "batch_calls st = filter (\<lambda>c. \<not> is_discovery c) (rpc_log st)"

text \<open>
  The comparator's loop and its final subtraction as one structural recursion over the
  two byte sequences; \<open>compare_bytes_cmp3\<close> below proves that the loop of the source
  computes it.
\<close>
fun cmp3 :: "buffer \<Rightarrow> buffer \<Rightarrow> int" where
  "cmp3 [] ys = - int (length ys)"
| "cmp3 (x # xs) [] = int (length (x # xs))"
| "cmp3 (x # xs) (y # ys) = (if x < y then - 1 else if x > y then 1 else cmp3 xs ys)"

text \<open>
  The part of \<^verbatim>\<open>fetchPage\<close> after the optional rebuild (the slice, the early return, the
  batch fetch and the \<^verbatim>\<open>reduce\<close>), as a function of the state the rebuild left;
  \<open>fetchPage_serve_page\<close> below proves that \<open>fetchPage\<close> is the rebuild step followed by it.
\<close>
definition serve_page ::
  "(buffer option \<Rightarrow> 'r option) \<Rightarrow> Connection \<Rightarrow> int \<Rightarrow> int \<Rightarrow> Coordinator
     \<Rightarrow> (error + 'r list) \<times> Coordinator" where
  "serve_page deserialize connection page perPage st1 =
     (let keys = paginatedPublicKeys (accounts st1) page perPage
      in if keys = [] then (Inr [], st1)
         else
           (let st2 = st1\<lparr>rpc_log := rpc_log st1 @ [GetMultipleAccountsInfo keys]\<rparr>
            in case getMultipleAccountsInfo connection keys of
                 Inl e \<Rightarrow> (Inl e, st2)
               | Inr accts \<Rightarrow> (Inr (studentIntros deserialize accts), st2)))"

subsection \<open>Ledgers for the examples\<close>

text \<open>
  An RPC node over a fixed list of accounts (key and data): discovery answers every
  account whose data has the bytes of each \<^verbatim>\<open>memcmp\<close> filter at the filter's offset, cut to
  the data slice; the batch fetch answers the data of each key, or nothing for a key that
  has no account.
\<close>
fun memcmp_matches :: "memcmp \<Rightarrow> buffer \<Rightarrow> bool" where
  "memcmp_matches (Memcmp off bs) bytes = (take (length bs) (drop off bytes) = bs)"

definition ledger_connection :: "(PublicKey \<times> buffer) list \<Rightarrow> Connection" where
  "ledger_connection ledger =
     \<lparr>getProgramAccounts = (\<lambda>program sl fs.
          Inr (map (\<lambda>(k, bytes). \<lparr>pubkey = k, data = data_slice sl bytes\<rparr>)
                 (filter (\<lambda>(k, bytes). list_all (\<lambda>f. memcmp_matches f bytes) fs) ledger))),
      getMultipleAccountsInfo = (\<lambda>ks. Inr (map (map_of ledger) ks))\<rparr>"

text \<open>A node that cannot be reached: both calls reject.\<close>
definition unreachable_connection :: Connection where
  "unreachable_connection =
     \<lparr>getProgramAccounts = (\<lambda>program sl fs. Inl (RpcError ''timeout'')),
      getMultipleAccountsInfo = (\<lambda>ks. Inl (RpcError ''timeout''))\<rparr>"

text \<open>The three records of the spec's sorting scenario, in the order of discovery.\<close>
definition scenario_ledger :: "(PublicKey \<times> buffer) list" where
  "scenario_ledger =
     [(''key-Bob'', account_bytes 1 (text_encode ''Bob'') (text_encode ''hello'')),
      (''key-Alice'', account_bytes 1 (text_encode ''Alice'') (text_encode ''hi'')),
      (''key-amy'', account_bytes 1 (text_encode ''amy'') (text_encode ''hey''))]"

text \<open>Two records whose names are nine bytes long and differ in the ninth byte only.\<close>
definition long_names_ledger :: "(PublicKey \<times> buffer) list" where
  "long_names_ledger =
     [(''key-1'', account_bytes 1 (text_encode ''AAAAAAAAB'') (text_encode ''first'')),
      (''key-2'', account_bytes 1 (text_encode ''AAAAAAAAA'') (text_encode ''second''))]"

text \<open>
  One valid record, and one account whose name declares 200 bytes and holds one. The
  key \<open>''key-gone''\<close> has no account.
\<close>
definition damaged_ledger :: "(PublicKey \<times> buffer) list" where
  "damaged_ledger =
     [(''key-Bob'', account_bytes 1 (text_encode ''Bob'') (text_encode ''hello'')),
      (''key-corrupt'', [1, 200, 0, 0, 0, 66])]"

text \<open>An account of two bytes: its data slice has one byte, fewer than a length prefix.\<close>
definition short_ledger :: "(PublicKey \<times> buffer) list" where
  "short_ledger = [(''key-short'', [1, 7])]"

definition short_and_valid_ledger :: "(PublicKey \<times> buffer) list" where
  "short_and_valid_ledger =
     [(''key-short'', [1, 7]),
      (''key-Bob'', account_bytes 1 (text_encode ''Bob'') (text_encode ''hello''))]"

definition empty_coordinator :: Coordinator where
  "empty_coordinator = \<lparr>accounts = [], rpc_log = []\<rparr>"

text \<open>
  A decoder for the examples (the decoder of the source is a parameter of \<open>fetchPage\<close>):
  it answers the name and the message of a buffer that is exactly one flag byte and two
  length-prefixed strings, and nothing for any other buffer or for an absent one.
\<close>
definition read_string :: "buffer \<Rightarrow> (buffer \<times> buffer) option" where
  "read_string bytes =
     (case readUInt32LE bytes 0 of
        Inl e \<Rightarrow> None
      | Inr n \<Rightarrow> if length bytes < 4 + n then None
                else Some (take n (drop 4 bytes), drop (4 + n) bytes))"

definition layout_deserialize :: "buffer option \<Rightarrow> (buffer \<times> buffer) option" where
  "layout_deserialize payload =
     (case payload of
        None \<Rightarrow> None
      | Some [] \<Rightarrow> None
      | Some (flag # bytes) \<Rightarrow>
          (case read_string bytes of
             None \<Rightarrow> None
           | Some (name, rest) \<Rightarrow>
               (case read_string rest of
                  None \<Rightarrow> None
                | Some (message, rest') \<Rightarrow> if rest' = [] then Some (name, message) else None)))"

section \<open>Properties\<close>

subsection \<open>Slicing\<close>

lemma take_min_length: "take (min n (length ys)) ys = take n ys"
  by (cases "n \<le> length ys") (simp_all add: min_def)

lemma js_slice_nonneg:
  assumes "0 \<le> s" and "0 \<le> n"
  shows "js_slice xs s (s + n) = take (nat n) (drop (nat s) xs)"
proof (cases "s < int (length xs)")
  case True
  let ?ys = "drop (nat s) xs"
  have len: "length ?ys = length xs - nat s" by simp
  have k: "relative_index (int (length xs)) s = s"
    using assms True by (simp add: relative_index_def)
  have f: "relative_index (int (length xs)) (s + n) = min (s + n) (int (length xs))"
    using assms by (simp add: relative_index_def)
  have "nat (min (s + n) (int (length xs)) - s) = min (nat n) (length ?ys)"
    using assms True by (simp add: min_def) linarith
  then have "js_slice xs s (s + n) = take (min (nat n) (length ?ys)) ?ys"
    by (simp add: js_slice_def Let_def k f)
  then show ?thesis by (simp only: take_min_length)
next
  case False
  then have "relative_index (int (length xs)) s = int (length xs)"
    using assms by (simp add: relative_index_def)
  moreover from False have "drop (nat s) xs = []" by simp
  ultimately show ?thesis by (simp add: js_slice_def Let_def)
qed

lemma page_bounds:
  fixes page perPage :: int
  shows "page * perPage = (page - 1) * perPage + perPage"
  by (simp add: algebra_simps)

subsection \<open>The layout of an account and the comparator\<close>

lemma unat_byte_of_nat: "unat (of_nat n :: byte) = n mod 256"
  by (simp add: unat_of_nat)

lemma u32_digits:
  fixes n :: nat
  assumes "n < 4294967296"
  shows "n mod 256 + (n div 256) mod 256 * 256 + (n div 65536) mod 256 * 65536
           + (n div 16777216) mod 256 * 16777216 = n"
proof -
  define q1 where "q1 = n div 256"
  define q2 where "q2 = q1 div 256"
  define q3 where "q3 = q2 div 256"
  have e1: "n = n mod 256 + 256 * q1" by (simp add: q1_def)
  have e2: "q1 = q1 mod 256 + 256 * q2" by (simp add: q2_def)
  have e3: "q2 = q2 mod 256 + 256 * q3" by (simp add: q3_def)
  have d2: "n div 65536 = q2" by (simp add: q2_def q1_def div_mult2_eq [symmetric])
  have d3: "n div 16777216 = q3" by (simp add: q3_def q2_def q1_def div_mult2_eq [symmetric])
  have "q3 < 256" using assms unfolding d3 [symmetric] by simp
  then have m3: "q3 mod 256 = q3" by simp
  show ?thesis
    unfolding d2 d3 m3 q1_def [symmetric]
    using e1 e2 e3 by linarith
qed

lemma readUInt32LE_u32le:
  assumes "n < 2 ^ 32"
  shows "readUInt32LE (u32le n @ rest) 0 = Inr n"
proof -
  have n: "n < 4294967296" using assms by simp
  then have "n div 16777216 < 256" by simp
  then have top: "n div 16777216 mod 256 = n div 16777216" by simp
  from u32_digits [OF n] show ?thesis
    unfolding top by (simp add: readUInt32LE_def u32le_def unat_byte_of_nat top)
qed

lemma length_u32le: "length (u32le n) = 4"
  by (simp add: u32le_def)

lemma js_slice_from:
  "js_slice xs 4 (4 + int n) = take n (drop 4 xs)"
  using js_slice_nonneg [of 4 "int n" xs] by simp

lemma data_discovered:
  "data (discovered k (account_bytes f name msg))
     = u32le (length name) @ take 8 (name @ borsh_string msg)"
  by (simp add: discovered_def account_bytes_def data_slice_def borsh_string_def length_u32le)

lemma take_name: "take (length name) (take 8 (name @ rest)) = take 8 name"
  by (cases "length name \<le> 8") (simp_all add: min_def)

lemma drop_u32le: "drop 4 (u32le n @ ys) = ys"
  by (simp add: u32le_def)

lemma compared_bytes_discovered:
  assumes "length name < 2 ^ 32"
  shows "compared_bytes (discovered k (account_bytes f name msg)) = take 8 name"
  unfolding compared_bytes_def data_discovered
  by (simp only: readUInt32LE_u32le [OF assms] sum.case js_slice_from drop_u32le take_name)

lemma readUInt32LE_short: "length buf < 4 \<Longrightarrow> readUInt32LE buf 0 = Inl RangeError"
  by (simp add: readUInt32LE_def)

lemma readUInt32LE_long: "4 \<le> length buf \<Longrightarrow> \<exists>n. readUInt32LE buf 0 = Inr n"
  by (simp add: readUInt32LE_def)

lemma cmp3_Nil2: "cmp3 xs [] = int (length xs)"
  by (cases xs) simp_all

lemma compare_bytes_cmp3:
  "len = min (length a) (length b) \<Longrightarrow> i \<le> len \<Longrightarrow>
     compare_bytes a b len i = cmp3 (drop i a) (drop i b)"
proof (induction a b len i rule: compare_bytes.induct)
  case (1 a b len i)
  show ?case
  proof (cases "i < len")
    case True
    with "1.prems" have ia: "i < length a" and ib: "i < length b" by simp_all
    have da: "drop i a = a ! i # drop (Suc i) a" using ia by (simp add: Cons_nth_drop_Suc)
    have db: "drop i b = b ! i # drop (Suc i) b" using ib by (simp add: Cons_nth_drop_Suc)
    show ?thesis
    proof (cases "a ! i < b ! i \<or> b ! i < a ! i")
      case True
      then show ?thesis using \<open>i < len\<close>
        by (subst compare_bytes.simps) (auto simp: da db)
    next
      case False
      then have "compare_bytes a b len (i + 1) = cmp3 (drop (i + 1) a) (drop (i + 1) b)"
        using "1.IH" "1.prems" \<open>i < len\<close> by simp
      then show ?thesis using False \<open>i < len\<close>
        by (subst compare_bytes.simps) (simp add: da db)
    qed
  next
    case False
    have il: "i = len" using False "1.prems"(2) by linarith
    show ?thesis
    proof (cases "length a \<le> length b")
      case True
      then have "drop i a = []" using il "1.prems" by simp
      moreover have "int (length (drop i b)) = int (length b) - int (length a)"
        using True il "1.prems" by simp
      ultimately show ?thesis using False
        by (subst compare_bytes.simps) simp
    next
      case False
      then have "drop i b = []" using il "1.prems" by simp
      moreover have "int (length (drop i a)) = int (length a) - int (length b)"
        using False il "1.prems" by simp
      ultimately show ?thesis using \<open>\<not> i < len\<close>
        by (subst compare_bytes.simps) (simp add: cmp3_Nil2)
    qed
  qed
qed

lemma cmp3_le: "cmp3 xs ys \<le> 0 \<longleftrightarrow> xs \<le> ys"
  by (induction xs ys rule: cmp3.induct) auto

lemma cmp3_eq: "cmp3 xs ys = 0 \<longleftrightarrow> xs = ys"
  by (induction xs ys rule: cmp3.induct) auto

lemma Nil_less_iff: "([] :: buffer) < ys \<longleftrightarrow> ys \<noteq> []"
  by (cases ys) simp_all

lemma cmp3_less: "cmp3 xs ys < 0 \<longleftrightarrow> xs < ys"
  by (induction xs ys rule: cmp3.induct) (auto simp: Nil_less_iff)

lemma sort_compare_good:
  assumes "4 \<le> length (data a)" and "4 \<le> length (data b)"
  shows "sort_compare a b = Inr (cmp3 (compared_bytes a) (compared_bytes b))"
proof -
  obtain la where la: "readUInt32LE (data a) 0 = Inr la"
    using readUInt32LE_long [OF assms(1)] by blast
  obtain lb where lb: "readUInt32LE (data b) 0 = Inr lb"
    using readUInt32LE_long [OF assms(2)] by blast
  show ?thesis
    by (simp add: sort_compare_def compared_bytes_def la lb Let_def compare_bytes_cmp3)
qed

lemma sort_compare_short:
  assumes "length (data a) < 4 \<or> length (data b) < 4"
  shows "sort_compare a b = Inl RangeError"
proof (cases "length (data a) < 4")
  case True
  then show ?thesis by (simp add: sort_compare_def readUInt32LE_short)
next
  case False
  then obtain la where la: "readUInt32LE (data a) 0 = Inr la"
    using readUInt32LE_long [of "data a"] by auto
  from False assms have "length (data b) < 4" by simp
  then show ?thesis by (simp add: sort_compare_def la readUInt32LE_short)
qed

subsection \<open>The page slice\<close>

text \<open>
  Claim C4. For an Index of N identifiers, a page number \<open>p \<ge> 1\<close> and a page size
  \<open>s \<ge> 1\<close>, the page slice is the contiguous part of the Index from position
  \<open>(p - 1) * s\<close> up to, and not including, position \<open>p * s\<close>, clipped to the length of the
  Index and in the order of the Index; it has exactly \<open>min s (max 0 (N - (p - 1) * s))\<close>
  identifiers.
\<close>
theorem page_slice_exact:
  assumes "1 \<le> page" and "1 \<le> perPage"
  shows "paginatedPublicKeys idx page perPage
           = take (nat perPage) (drop (nat ((page - 1) * perPage)) idx)
       \<and> int (length (paginatedPublicKeys idx page perPage))
           = min perPage (max 0 (int (length idx) - (page - 1) * perPage))
       \<and> (\<forall>i < length (paginatedPublicKeys idx page perPage).
             paginatedPublicKeys idx page perPage ! i = idx ! (nat ((page - 1) * perPage) + i))"
proof -
  let ?s = "(page - 1) * perPage"
  have s0: "0 \<le> ?s" using assms by simp
  have n0: "0 \<le> perPage" using assms by simp
  have eq: "paginatedPublicKeys idx page perPage = take (nat perPage) (drop (nat ?s) idx)"
    unfolding paginatedPublicKeys_def
    using js_slice_nonneg [OF s0 n0, of idx] by (simp only: page_bounds [symmetric])
  have len: "int (length (take (nat perPage) (drop (nat ?s) idx)))
               = min perPage (max 0 (int (length idx) - ?s))"
    using s0 n0 by (simp add: min_def max_def) linarith
  have nth: "\<forall>i < length (take (nat perPage) (drop (nat ?s) idx)).
               take (nat perPage) (drop (nat ?s) idx) ! i = idx ! (nat ?s + i)"
    by (auto simp: nth_drop)
  show ?thesis using eq len nth by simp
qed

theorem page_slice_exact_witness:
  "paginatedPublicKeys [''a'', ''b'', ''c'', ''d'', ''e'', ''f'', ''g''] 2 5 = [''f'', ''g'']
   \<and> int (length (paginatedPublicKeys [''a'', ''b'', ''c'', ''d'', ''e'', ''f'', ''g''] 2 5))
       = min 5 (max 0 (7 - (2 - 1) * 5))"
  using page_slice_exact [of 2 5 "[''a'', ''b'', ''c'', ''d'', ''e'', ''f'', ''g'']"]
  by simp

subsection \<open>The sort\<close>

lemma sort_insert_insort_key:
  assumes "\<forall>y \<in> set ys. \<exists>c. comparefn x y = Inr c \<and> (c \<le> 0 \<longleftrightarrow> key x \<le> key y)"
  shows "sort_insert comparefn x ys = Inr (insort_key key x ys)"
  using assms
proof (induction ys)
  case Nil
  show ?case by simp
next
  case (Cons y ys)
  from Cons.prems obtain c where c: "comparefn x y = Inr c" "c \<le> 0 \<longleftrightarrow> key x \<le> key y"
    by auto
  from Cons have "sort_insert comparefn x ys = Inr (insort_key key x ys)" by simp
  with c show ?case by simp
qed

lemma array_sort_sort_key:
  assumes "\<forall>x \<in> set xs. \<forall>y \<in> set xs. \<exists>c. comparefn x y = Inr c \<and> (c \<le> 0 \<longleftrightarrow> key x \<le> key y)"
  shows "array_sort comparefn xs = Inr (sort_key key xs)"
  using assms
proof (induction xs)
  case Nil
  show ?case by simp
next
  case (Cons x xs)
  from Cons have rest: "array_sort comparefn xs = Inr (sort_key key xs)" by simp
  have "\<forall>y \<in> set (sort_key key xs). \<exists>c. comparefn x y = Inr c \<and> (c \<le> 0 \<longleftrightarrow> key x \<le> key y)"
    using Cons.prems by simp
  from sort_insert_insort_key
         [where key = key and ys = "sort_key key xs" and comparefn = comparefn and x = x, OF this]
       rest show ?case
    by (simp add: sort_key_simps)
qed

lemma array_sort_all_long:
  assumes "\<forall>a \<in> set xs. 4 \<le> length (data a)"
  shows "array_sort sort_compare xs = Inr (sort_key compared_bytes xs)"
proof (rule array_sort_sort_key, intro ballI)
  fix x y assume "x \<in> set xs" "y \<in> set xs"
  with assms have "4 \<le> length (data x)" "4 \<le> length (data y)" by simp_all
  from sort_compare_good [OF this]
  show "\<exists>c. sort_compare x y = Inr c \<and> (c \<le> 0 \<longleftrightarrow> compared_bytes x \<le> compared_bytes y)"
    by (simp add: cmp3_le)
qed

lemma sort_compare_Inr_long:
  assumes "sort_compare a b = Inr c"
  shows "4 \<le> length (data a) \<and> 4 \<le> length (data b)"
proof (rule ccontr)
  assume "\<not> ?thesis"
  then have "length (data a) < 4 \<or> length (data b) < 4" by auto
  from sort_compare_short [OF this] assms show False by simp
qed

lemma sort_compare_error:
  assumes "sort_compare a b = Inl e"
  shows "e = RangeError"
proof (cases "length (data a) < 4 \<or> length (data b) < 4")
  case True
  from sort_compare_short [OF True] assms show ?thesis by simp
next
  case False
  then have "4 \<le> length (data a)" "4 \<le> length (data b)" by simp_all
  from sort_compare_good [OF this] assms show ?thesis by simp
qed

lemma sort_insert_length:
  "sort_insert comparefn x ys = Inr zs \<Longrightarrow> length zs = Suc (length ys)"
  by (induction ys arbitrary: zs) (auto split: sum.splits if_splits)

lemma array_sort_length:
  "array_sort comparefn xs = Inr ys \<Longrightarrow> length ys = length xs"
  by (induction xs arbitrary: ys) (auto split: sum.splits dest: sort_insert_length)

lemma sort_insert_error:
  "sort_insert sort_compare x ys = Inl e \<Longrightarrow> e = RangeError"
  by (induction ys) (auto split: sum.splits if_splits dest: sort_compare_error)

lemma array_sort_error:
  "array_sort sort_compare xs = Inl e \<Longrightarrow> e = RangeError"
  by (induction xs) (auto split: sum.splits dest: sort_insert_error)

lemma array_sort_Inr_long:
  assumes "array_sort sort_compare xs = Inr ys" and "2 \<le> length xs"
  shows "\<forall>a \<in> set xs. 4 \<le> length (data a)"
  using assms
proof (induction xs arbitrary: ys)
  case Nil
  then show ?case by simp
next
  case (Cons x xs)
  from Cons.prems(1) obtain ys' where rest: "array_sort sort_compare xs = Inr ys'"
    and ins: "sort_insert sort_compare x ys' = Inr ys"
    by (auto split: sum.splits)
  from Cons.prems(2) have "xs \<noteq> []" by auto
  with array_sort_length [OF rest] obtain y t where ys': "ys' = y # t"
    by (cases ys') auto
  from ins ys' obtain c where "sort_compare x y = Inr c"
    by (auto split: sum.splits)
  from sort_compare_Inr_long [OF this]
  have x: "4 \<le> length (data x)" and y: "4 \<le> length (data y)" by simp_all
  show ?case
  proof (cases "2 \<le> length xs")
    case True
    from Cons.IH [OF rest True] x show ?thesis by simp
  next
    case False
    moreover from \<open>xs \<noteq> []\<close> have "0 < length xs" by simp
    ultimately have "length xs = Suc 0" by linarith
    then obtain z where z: "xs = [z]"
      by (auto simp: length_Suc_conv)
    with rest ys' have "y = z" by simp
    with x y z show ?thesis by simp
  qed
qed

lemma array_sort_short:
  assumes "2 \<le> length xs" and "a \<in> set xs" and "length (data a) < 4"
  shows "array_sort sort_compare xs = Inl RangeError"
proof (cases "array_sort sort_compare xs")
  case (Inl e)
  with array_sort_error [OF Inl] show ?thesis by simp
next
  case (Inr ys)
  from array_sort_Inr_long [OF Inr assms(1)] assms(2,3) show ?thesis by auto
qed

lemma array_sort_Inr:
  assumes "array_sort sort_compare xs = Inr ys"
  shows "ys = sort_key compared_bytes xs"
proof (cases "2 \<le> length xs")
  case True
  from array_sort_all_long [OF array_sort_Inr_long [OF assms True]] assms show ?thesis by simp
next
  case False
  then have "length xs = 0 \<or> length xs = Suc 0" by linarith
  then consider "xs = []" | z where "xs = [z]"
    by (auto simp: length_Suc_conv)
  then show ?thesis using assms by cases auto
qed

subsection \<open>The structure of fetchPage\<close>

lemma fetchPage_serve_page:
  "fetchPage d c page perPage search reload st =
     (case (if accounts st = [] \<or> reload then prefetchAccounts c search st else (Inr (), st)) of
        (Inl e, st1) \<Rightarrow> (Inl e, st1)
      | (Inr u, st1) \<Rightarrow> serve_page d c page perPage st1)"
  unfolding fetchPage_def serve_page_def by (rule refl)

lemma fetchPage_cached:
  "accounts st \<noteq> [] \<Longrightarrow> fetchPage d c page perPage search False st = serve_page d c page perPage st"
  by (simp add: fetchPage_serve_page)

lemma prefetchAccounts_cases:
  "prefetchAccounts c search st =
     (case getProgramAccounts c STUDENT_INTRO_PROGRAM_ID (1, 12) (search_filters search) of
        Inl e \<Rightarrow> (Inl e, st\<lparr>rpc_log := rpc_log st
                  @ [GetProgramAccounts STUDENT_INTRO_PROGRAM_ID (1, 12) (search_filters search)]\<rparr>)
      | Inr accts \<Rightarrow>
          (case array_sort sort_compare accts of
             Inl e \<Rightarrow> (Inl e, st\<lparr>rpc_log := rpc_log st
                  @ [GetProgramAccounts STUDENT_INTRO_PROGRAM_ID (1, 12) (search_filters search)]\<rparr>)
           | Inr sorted_accts \<Rightarrow>
               (Inr (), \<lparr>accounts = map pubkey sorted_accts,
                         rpc_log = rpc_log st
                  @ [GetProgramAccounts STUDENT_INTRO_PROGRAM_ID (1, 12) (search_filters search)]\<rparr>)))"
  by (simp add: prefetchAccounts_def Let_def split: sum.splits)

lemma prefetchAccounts_error_keeps_index:
  "fst (prefetchAccounts c search st) = Inl e \<Longrightarrow>
     accounts (snd (prefetchAccounts c search st)) = accounts st"
  by (auto simp: prefetchAccounts_cases split: sum.splits)

lemma prefetchAccounts_log:
  "rpc_log (snd (prefetchAccounts c search st)) =
     rpc_log st @ [GetProgramAccounts STUDENT_INTRO_PROGRAM_ID (1, 12) (search_filters search)]"
  by (auto simp: prefetchAccounts_cases split: sum.splits)

lemma prefetchAccounts_result_state_independent:
  "fst (prefetchAccounts c search st) = fst (prefetchAccounts c search st')
   \<and> (fst (prefetchAccounts c search st) = Inr () \<longrightarrow>
        accounts (snd (prefetchAccounts c search st)) = accounts (snd (prefetchAccounts c search st')))"
  by (auto simp: prefetchAccounts_cases split: sum.splits)

lemma serve_page_accounts:
  "accounts (snd (serve_page d c page perPage st)) = accounts st"
  by (auto simp: serve_page_def Let_def split: sum.splits)

lemma serve_page_result_log_independent:
  "accounts st = accounts st' \<Longrightarrow> fst (serve_page d c page perPage st) = fst (serve_page d c page perPage st')"
  by (auto simp: serve_page_def Let_def split: sum.splits)

lemma serve_page_discovery_calls:
  "discovery_calls (snd (serve_page d c page perPage st)) = discovery_calls st"
  by (auto simp: serve_page_def discovery_calls_def Let_def split: sum.splits)

text \<open>
  Claim C5. When the discovery call fails during a rebuild, the error reaches the
  caller of \<^verbatim>\<open>prefetchAccounts\<close> and, when \<^verbatim>\<open>fetchPage\<close> rebuilds (empty Index or
  \<^verbatim>\<open>reload\<close>), the caller of \<^verbatim>\<open>fetchPage\<close>; the cached Index is the one from before the call.
\<close>
theorem discovery_failure_keeps_index:
  assumes "getProgramAccounts c STUDENT_INTRO_PROGRAM_ID (1, 12) (search_filters search) = Inl e"
  shows "fst (prefetchAccounts c search st) = Inl e
       \<and> accounts (snd (prefetchAccounts c search st)) = accounts st
       \<and> (accounts st = [] \<or> reload \<longrightarrow>
            fst (fetchPage d c page perPage search reload st) = Inl e
          \<and> accounts (snd (fetchPage d c page perPage search reload st)) = accounts st)"
proof -
  have p: "prefetchAccounts c search st =
             (Inl e, st\<lparr>rpc_log := rpc_log st
                @ [GetProgramAccounts STUDENT_INTRO_PROGRAM_ID (1, 12) (search_filters search)]\<rparr>)"
    using assms by (simp add: prefetchAccounts_cases)
  show ?thesis by (simp add: p fetchPage_serve_page)
qed

theorem discovery_failure_keeps_index_witness:
  "fst (prefetchAccounts unreachable_connection ''Bob'' \<lparr>accounts = [''key-1'', ''key-2''], rpc_log = []\<rparr>)
     = Inl (RpcError ''timeout'')
   \<and> accounts (snd (prefetchAccounts unreachable_connection ''Bob''
        \<lparr>accounts = [''key-1'', ''key-2''], rpc_log = []\<rparr>)) = [''key-1'', ''key-2'']
   \<and> fst (fetchPage layout_deserialize unreachable_connection 1 5 ''Bob'' True
        \<lparr>accounts = [''key-1'', ''key-2''], rpc_log = []\<rparr>) = Inl (RpcError ''timeout'')
   \<and> accounts (snd (fetchPage layout_deserialize unreachable_connection 1 5 ''Bob'' True
        \<lparr>accounts = [''key-1'', ''key-2''], rpc_log = []\<rparr>)) = [''key-1'', ''key-2'']"
proof -
  have h: "getProgramAccounts unreachable_connection STUDENT_INTRO_PROGRAM_ID (1, 12)
             (search_filters ''Bob'') = Inl (RpcError ''timeout'')"
    by (simp add: unreachable_connection_def)
  from discovery_failure_keeps_index [OF h, of "\<lparr>accounts = [''key-1'', ''key-2''], rpc_log = []\<rparr>"
      True layout_deserialize 1 5]
  show ?thesis by simp
qed

subsection \<open>Decoding a batch\<close>

lemma studentIntros_foldl:
  "foldl (\<lambda>accum account.
            case d account of None \<Rightarrow> accum | Some studentIntro \<Rightarrow> accum @ [studentIntro]) acc batch
     = acc @ map the (filter (\<lambda>r. r \<noteq> None) (map d batch))"
  by (induction batch arbitrary: acc) (auto split: option.splits)

lemma studentIntros_decoded:
  "studentIntros d batch = map the (filter (\<lambda>r. r \<noteq> None) (map d batch))"
  by (simp add: studentIntros_def studentIntros_foldl)

lemma serve_page_Inr:
  assumes "serve_page d c page perPage st = (Inr recs, st')"
    and "paginatedPublicKeys (accounts st) page perPage \<noteq> []"
  shows "\<exists>batch. getMultipleAccountsInfo c (paginatedPublicKeys (accounts st) page perPage) = Inr batch
           \<and> recs = studentIntros d batch"
  using assms by (auto simp: serve_page_def Let_def split: sum.splits)

lemma fetchPage_Inr:
  assumes "fetchPage d c page perPage search reload st = (Inr recs, st')"
  shows "\<exists>st1. serve_page d c page perPage st1 = (Inr recs, st') \<and> accounts st1 = accounts st'"
proof -
  from assms obtain st1 where s: "serve_page d c page perPage st1 = (Inr recs, st')"
    by (auto simp: fetchPage_serve_page split: if_splits prod.splits sum.splits)
  from serve_page_accounts [of d c page perPage st1] s have "accounts st1 = accounts st'" by simp
  with s show ?thesis by blast
qed

lemma fetchPage_Inr_decoded:
  assumes "fetchPage d c page perPage search reload st = (Inr recs, st')"
    and "paginatedPublicKeys (accounts st') page perPage \<noteq> []"
  shows "\<exists>batch. getMultipleAccountsInfo c (paginatedPublicKeys (accounts st') page perPage) = Inr batch
           \<and> recs = map the (filter (\<lambda>r. r \<noteq> None) (map d batch))"
proof -
  from fetchPage_Inr [OF assms(1)] obtain st1
    where s: "serve_page d c page perPage st1 = (Inr recs, st')" and a: "accounts st1 = accounts st'"
    by blast
  from serve_page_Inr [OF s] assms(2) a obtain batch
    where b: "getMultipleAccountsInfo c (paginatedPublicKeys (accounts st') page perPage) = Inr batch"
      and r: "recs = studentIntros d batch"
    by auto
  from r have "recs = map the (filter (\<lambda>r. r \<noteq> None) (map d batch))"
    by (simp add: studentIntros_decoded)
  with b show ?thesis by auto
qed

lemma serve_page_batch:
  assumes "paginatedPublicKeys (accounts st1) page perPage \<noteq> []"
    and "getMultipleAccountsInfo c (paginatedPublicKeys (accounts st1) page perPage) = Inr batch"
  shows "serve_page d c page perPage st1
           = (Inr (studentIntros d batch),
              st1\<lparr>rpc_log := rpc_log st1
                @ [GetMultipleAccountsInfo (paginatedPublicKeys (accounts st1) page perPage)]\<rparr>)"
  using assms by (simp add: serve_page_def Let_def)

text \<open>
  Claim C6. When the rebuild step of \<^verbatim>\<open>fetchPage\<close> has not failed, the page slice is not
  empty and the batch fetch answers, \<^verbatim>\<open>fetchPage\<close> succeeds, whatever the payloads are: it
  returns the decoded payloads of the batch in the order of the batch, without the
  positions whose payload is absent or does not decode. No such position makes the call
  fail or stops the decoding of the positions after it. For a batch
  \<open>[valid, absent, corrupt]\<close> the result is exactly the one record of position 0.
\<close>
theorem fetchPage_skips_undecodable:
  assumes "(if accounts st = [] \<or> reload then prefetchAccounts c search st else (Inr (), st))
             = (Inr (), st1)"
    and "paginatedPublicKeys (accounts st1) page perPage \<noteq> []"
    and "getMultipleAccountsInfo c (paginatedPublicKeys (accounts st1) page perPage) = Inr batch"
  shows "fetchPage d c page perPage search reload st
           = (Inr (map the (filter (\<lambda>r. r \<noteq> None) (map d batch))),
              st1\<lparr>rpc_log := rpc_log st1
                @ [GetMultipleAccountsInfo (paginatedPublicKeys (accounts st1) page perPage)]\<rparr>)
       \<and> (\<forall>valid corrupt r. batch = [Some valid, None, Some corrupt] \<and> d (Some valid) = Some r
              \<and> d None = None \<and> d (Some corrupt) = None \<longrightarrow>
            fst (fetchPage d c page perPage search reload st) = Inr [r])"
proof -
  have "fetchPage d c page perPage search reload st = serve_page d c page perPage st1"
    using assms(1) by (simp add: fetchPage_serve_page)
  with serve_page_batch [OF assms(2,3), of d]
  have f: "fetchPage d c page perPage search reload st
           = (Inr (map the (filter (\<lambda>r. r \<noteq> None) (map d batch))),
              st1\<lparr>rpc_log := rpc_log st1
                @ [GetMultipleAccountsInfo (paginatedPublicKeys (accounts st1) page perPage)]\<rparr>)"
    by (simp add: studentIntros_decoded)
  have "fst (fetchPage d c page perPage search reload st) = Inr [r]"
    if "batch = [Some valid, None, Some corrupt]" "d (Some valid) = Some r" "d None = None"
       "d (Some corrupt) = None" for valid corrupt r
    using that by (simp add: f)
  with f show ?thesis by blast
qed

lemma read_string_u32le:
  "length s < 2 ^ 32 \<Longrightarrow> read_string (u32le (length s) @ s @ rest) = Some (s, rest)"
  by (simp add: read_string_def readUInt32LE_u32le length_u32le drop_u32le)

lemma layout_deserialize_account:
  assumes "length name < 2 ^ 32" and "length message < 2 ^ 32"
  shows "layout_deserialize (Some (account_bytes f name message)) = Some (name, message)"
  using read_string_u32le [OF assms(1), of "borsh_string message"]
        read_string_u32le [OF assms(2), of "[]"]
  by (simp add: layout_deserialize_def account_bytes_def borsh_string_def)

lemma layout_deserialize_None: "layout_deserialize None = None"
  by (simp add: layout_deserialize_def)

lemma layout_deserialize_corrupt:
  "layout_deserialize (Some [1, 200, 0, 0, 0, 66]) = None"
  by (simp add: layout_deserialize_def read_string_def readUInt32LE_def)

lemma layout_deserialize_Bob:
  "layout_deserialize (Some (account_bytes 1 (text_encode ''Bob'') (text_encode ''hello'')))
     = Some (text_encode ''Bob'', text_encode ''hello'')"
  by (rule layout_deserialize_account) (simp_all add: text_encode_def)

lemma page_one_of_three:
  "paginatedPublicKeys [a, b, c] 1 5 = [a, b, c]"
  by (simp add: paginatedPublicKeys_def js_slice_def relative_index_def)

lemma damaged_page:
  "fetchPage layout_deserialize (ledger_connection damaged_ledger) 1 5 '''' False
     \<lparr>accounts = [''key-Bob'', ''key-gone'', ''key-corrupt''], rpc_log = []\<rparr>
   = (Inr [(text_encode ''Bob'', text_encode ''hello'')],
      \<lparr>accounts = [''key-Bob'', ''key-gone'', ''key-corrupt''],
       rpc_log = [GetMultipleAccountsInfo [''key-Bob'', ''key-gone'', ''key-corrupt'']]\<rparr>)"
proof -
  have b: "getMultipleAccountsInfo (ledger_connection damaged_ledger)
             [''key-Bob'', ''key-gone'', ''key-corrupt'']
           = Inr [Some (account_bytes 1 (text_encode ''Bob'') (text_encode ''hello'')), None,
                  Some [1, 200, 0, 0, 0, 66]]"
    by (simp add: ledger_connection_def damaged_ledger_def)
  show ?thesis
    by (simp add: fetchPage_cached serve_page_def Let_def page_one_of_three b
          studentIntros_decoded layout_deserialize_Bob layout_deserialize_corrupt
          layout_deserialize_None)
qed

theorem fetchPage_skips_undecodable_witness:
  "getMultipleAccountsInfo (ledger_connection damaged_ledger)
       (paginatedPublicKeys [''key-Bob'', ''key-gone'', ''key-corrupt''] 1 5)
     = Inr [Some (account_bytes 1 (text_encode ''Bob'') (text_encode ''hello'')), None,
            Some [1, 200, 0, 0, 0, 66]]
   \<and> layout_deserialize (Some [1, 200, 0, 0, 0, 66]) = None
   \<and> fetchPage layout_deserialize (ledger_connection damaged_ledger) 1 5 '''' False
        \<lparr>accounts = [''key-Bob'', ''key-gone'', ''key-corrupt''], rpc_log = []\<rparr>
     = (Inr [(text_encode ''Bob'', text_encode ''hello'')],
        \<lparr>accounts = [''key-Bob'', ''key-gone'', ''key-corrupt''],
         rpc_log = [GetMultipleAccountsInfo [''key-Bob'', ''key-gone'', ''key-corrupt'']]\<rparr>)"
proof -
  let ?st = "\<lparr>accounts = [''key-Bob'', ''key-gone'', ''key-corrupt''], rpc_log = []\<rparr>"
  have h1: "(if accounts ?st = [] \<or> False
             then prefetchAccounts (ledger_connection damaged_ledger) '''' ?st
             else (Inr (), ?st)) = (Inr (), ?st)"
    by simp
  have h2: "paginatedPublicKeys (accounts ?st) 1 5 \<noteq> []"
    by (simp add: page_one_of_three)
  have h3: "getMultipleAccountsInfo (ledger_connection damaged_ledger)
              (paginatedPublicKeys (accounts ?st) 1 5)
            = Inr [Some (account_bytes 1 (text_encode ''Bob'') (text_encode ''hello'')), None,
                   Some [1, 200, 0, 0, 0, 66]]"
    by (simp add: page_one_of_three ledger_connection_def damaged_ledger_def)
  from fetchPage_skips_undecodable [OF h1 h2 h3, where d = layout_deserialize] h3
  show ?thesis
    by (simp add: page_one_of_three layout_deserialize_Bob layout_deserialize_corrupt
          layout_deserialize_None)
qed

subsection \<open>The early return\<close>

lemma serve_page_empty:
  "paginatedPublicKeys (accounts st1) page perPage = [] \<Longrightarrow>
     serve_page d c page perPage st1 = (Inr [], st1)"
  by (simp add: serve_page_def)

lemma prefetchAccounts_batch_calls:
  "batch_calls (snd (prefetchAccounts c search st)) = batch_calls st"
  by (simp add: batch_calls_def prefetchAccounts_log)

text \<open>
  Claim C7. When the rebuild step of \<^verbatim>\<open>fetchPage\<close> has not failed and the page slice is
  empty (a page beyond the end of the Index, for example), \<^verbatim>\<open>fetchPage\<close> returns the empty
  record sequence, not an error, and the state is the one the rebuild step left: no
  batch fetch is made.
\<close>
theorem empty_slice_returns_without_batch_fetch:
  assumes "(if accounts st = [] \<or> reload then prefetchAccounts c search st else (Inr (), st))
             = (Inr (), st1)"
    and "paginatedPublicKeys (accounts st1) page perPage = []"
  shows "fetchPage d c page perPage search reload st = (Inr [], st1)
       \<and> batch_calls st1 = batch_calls st"
proof -
  have f: "fetchPage d c page perPage search reload st = serve_page d c page perPage st1"
    using assms(1) by (simp add: fetchPage_serve_page)
  have "batch_calls st1 = batch_calls st"
  proof (cases "accounts st = [] \<or> reload")
    case True
    with assms(1) have "st1 = snd (prefetchAccounts c search st)" by simp
    then show ?thesis by (simp add: prefetchAccounts_batch_calls)
  next
    case False
    with assms(1) show ?thesis by simp
  qed
  with f serve_page_empty [OF assms(2)] show ?thesis by simp
qed

lemma page_hundred_of_seven:
  "paginatedPublicKeys [k1, k2, k3, k4, k5, k6, k7] 100 5 = []"
  by (simp add: paginatedPublicKeys_def js_slice_def relative_index_def)

theorem empty_slice_returns_without_batch_fetch_witness:
  "fetchPage layout_deserialize unreachable_connection 100 5 '''' False
     \<lparr>accounts = [''k1'', ''k2'', ''k3'', ''k4'', ''k5'', ''k6'', ''k7''], rpc_log = []\<rparr>
   = (Inr [], \<lparr>accounts = [''k1'', ''k2'', ''k3'', ''k4'', ''k5'', ''k6'', ''k7''], rpc_log = []\<rparr>)"
proof -
  let ?st = "\<lparr>accounts = [''k1'', ''k2'', ''k3'', ''k4'', ''k5'', ''k6'', ''k7''], rpc_log = []\<rparr>"
  have h1: "(if accounts ?st = [] \<or> False then prefetchAccounts unreachable_connection '''' ?st
             else (Inr (), ?st)) = (Inr (), ?st)"
    by simp
  have h2: "paginatedPublicKeys (accounts ?st) 100 5 = []"
    by (simp add: page_hundred_of_seven)
  from empty_slice_returns_without_batch_fetch [OF h1 h2] show ?thesis by simp
qed

subsection \<open>Two runs\<close>

lemma fetchPage_rebuild_error:
  assumes "accounts st = [] \<or> reload" and "fst (prefetchAccounts c search st) = Inl e"
  shows "fetchPage d c page perPage search reload st = (Inl e, snd (prefetchAccounts c search st))"
  using assms by (cases "prefetchAccounts c search st") (auto simp: fetchPage_serve_page)

lemma fetchPage_rebuild_ok:
  assumes "accounts st = [] \<or> reload" and "fst (prefetchAccounts c search st) = Inr ()"
  shows "fetchPage d c page perPage search reload st
           = serve_page d c page perPage (snd (prefetchAccounts c search st))"
  using assms by (cases "prefetchAccounts c search st") (auto simp: fetchPage_serve_page)

text \<open>
  Claim C8. With the connection answering the same (a function of the request) and
  \<^verbatim>\<open>reload = false\<close>, a second \<^verbatim>\<open>fetchPage\<close> call with the same arguments, made in the state
  the first call left, returns what the first call returned: the same records in the same
  order, or the same error. The Index after the second call is the Index after the first.
\<close>
theorem fetchPage_twice_same_result:
  "fst (fetchPage d c page perPage search False
          (snd (fetchPage d c page perPage search False st)))
     = fst (fetchPage d c page perPage search False st)
   \<and> accounts (snd (fetchPage d c page perPage search False
          (snd (fetchPage d c page perPage search False st))))
     = accounts (snd (fetchPage d c page perPage search False st))"
proof (cases "accounts st = []")
  case False
  let ?st' = "snd (serve_page d c page perPage st)"
  have a: "accounts ?st' = accounts st" by (rule serve_page_accounts)
  with False have ne: "accounts ?st' \<noteq> []" by simp
  have "fst (serve_page d c page perPage ?st') = fst (serve_page d c page perPage st)"
    by (rule serve_page_result_log_independent) (rule a)
  then show ?thesis
    by (simp add: fetchPage_cached [OF False] fetchPage_cached [OF ne] serve_page_accounts)
next
  case True
  let ?p = "prefetchAccounts c search st"
  show ?thesis
  proof (cases "fst ?p")
    case (Inl e)
    then have first: "fetchPage d c page perPage search False st = (Inl e, snd ?p)"
      using True by (simp add: fetchPage_rebuild_error)
    have acc: "accounts (snd ?p) = []"
      using prefetchAccounts_error_keeps_index [OF Inl] True by simp
    have "fst (prefetchAccounts c search (snd ?p)) = Inl e"
      using prefetchAccounts_result_state_independent [of c search "snd ?p" st] Inl by simp
    then have second: "fetchPage d c page perPage search False (snd ?p)
                         = (Inl e, snd (prefetchAccounts c search (snd ?p)))"
      using acc by (simp add: fetchPage_rebuild_error)
    have "accounts (snd (prefetchAccounts c search (snd ?p))) = accounts (snd ?p)"
      using \<open>fst (prefetchAccounts c search (snd ?p)) = Inl e\<close>
      by (rule prefetchAccounts_error_keeps_index)
    then show ?thesis by (simp add: first second)
  next
    case (Inr u)
    then have ok: "fst ?p = Inr ()" by simp
    then have first: "fetchPage d c page perPage search False st = serve_page d c page perPage (snd ?p)"
      using True by (simp add: fetchPage_rebuild_ok)
    let ?s1 = "snd (serve_page d c page perPage (snd ?p))"
    have a1: "accounts ?s1 = accounts (snd ?p)" by (rule serve_page_accounts)
    show ?thesis
    proof (cases "accounts (snd ?p) = []")
      case False
      with a1 have ne: "accounts ?s1 \<noteq> []" by simp
      have "fst (serve_page d c page perPage ?s1) = fst (serve_page d c page perPage (snd ?p))"
        by (rule serve_page_result_log_independent) (rule a1)
      then show ?thesis
        by (simp add: first fetchPage_cached [OF ne] serve_page_accounts)
    next
      case empty: True
      let ?q = "prefetchAccounts c search ?s1"
      from prefetchAccounts_result_state_independent [of c search ?s1 st] ok
      have q: "fst ?q = Inr ()" and qa: "accounts (snd ?q) = accounts (snd ?p)" by simp_all
      from a1 empty have "accounts ?s1 = []" by simp
      with q have second: "fetchPage d c page perPage search False ?s1
                             = serve_page d c page perPage (snd ?q)"
        by (simp add: fetchPage_rebuild_ok)
      have "fst (serve_page d c page perPage (snd ?q)) = fst (serve_page d c page perPage (snd ?p))"
        by (rule serve_page_result_log_independent) (rule qa)
      then show ?thesis
        by (simp add: first second serve_page_accounts qa)
    qed
  qed
qed

theorem fetchPage_twice_same_result_witness:
  "fst (fetchPage layout_deserialize (ledger_connection damaged_ledger) 1 5 '''' False
          (snd (fetchPage layout_deserialize (ledger_connection damaged_ledger) 1 5 '''' False
                  \<lparr>accounts = [''key-Bob'', ''key-gone'', ''key-corrupt''], rpc_log = []\<rparr>)))
     = Inr [(text_encode ''Bob'', text_encode ''hello'')]"
  using fetchPage_twice_same_result [of layout_deserialize "ledger_connection damaged_ledger" 1 5 "''''"
          "\<lparr>accounts = [''key-Bob'', ''key-gone'', ''key-corrupt''], rpc_log = []\<rparr>"]
  by (simp only: damaged_page fst_conv)

subsection \<open>Page numbers and page sizes below one\<close>

lemma relative_index_bounds:
  "0 \<le> len \<Longrightarrow> 0 \<le> relative_index len i \<and> relative_index len i \<le> len"
  by (simp add: relative_index_def)

lemma js_slice_empty_iff:
  "js_slice xs s e = [] \<longleftrightarrow>
     relative_index (int (length xs)) e \<le> relative_index (int (length xs)) s"
proof -
  let ?len = "int (length xs)"
  have k: "0 \<le> relative_index ?len s" "relative_index ?len s \<le> ?len"
    using relative_index_bounds [of ?len s] by simp_all
  have f: "relative_index ?len e \<le> ?len"
    using relative_index_bounds [of ?len e] by simp
  have "js_slice xs s e = [] \<longleftrightarrow>
          relative_index ?len e - relative_index ?len s \<le> 0 \<or> ?len \<le> relative_index ?len s"
    using k by (simp add: js_slice_def Let_def) linarith
  with k f show ?thesis by linarith
qed

lemma page_start:
  fixes page perPage :: int
  shows "(page - 1) * perPage = page * perPage - perPage"
  by (simp add: algebra_simps)

text \<open>
  Claim C2, as the code has it. The page slice has no clamp. For a page number or a
  page size below one it is empty, except in two cases, where \<^verbatim>\<open>Array.prototype.slice\<close>
  counts a negative bound from the end of the Index and the slice is not empty: a
  negative page number with a page size of at least one, on an Index longer than
  \<open>- page * perPage\<close>; and page one with a negative page size, on an Index longer than
  \<open>- perPage\<close>. In particular it is empty whenever the page number or the page size is
  zero. It never fails.
\<close>
theorem page_slice_below_one:
  assumes "page < 1 \<or> perPage < 1"
  shows "(paginatedPublicKeys idx page perPage \<noteq> [] \<longleftrightarrow>
            (page < 0 \<and> 1 \<le> perPage \<and> - (page * perPage) < int (length idx))
          \<or> (page = 1 \<and> perPage < 0 \<and> - perPage < int (length idx)))
       \<and> (page = 0 \<or> perPage = 0 \<longrightarrow> paginatedPublicKeys idx page perPage = [])"
proof -
  let ?len = "int (length idx)"
  let ?P = "page * perPage"
  have len: "0 \<le> ?len" by simp
  have e: "paginatedPublicKeys idx page perPage = [] \<longleftrightarrow>
             relative_index ?len ?P \<le> relative_index ?len (?P - perPage)"
    by (simp add: paginatedPublicKeys_def js_slice_empty_iff page_start)
  consider (zero_size) "perPage = 0" | (zero_page) "page = 0" "perPage \<noteq> 0"
    | (neg_pos) "page < 0" "1 \<le> perPage" | (neg_neg) "page < 0" "perPage < 0"
    | (one_neg) "page = 1" "perPage < 0" | (more_neg) "2 \<le> page" "perPage < 0"
    using assms by linarith
  then have main: "paginatedPublicKeys idx page perPage \<noteq> [] \<longleftrightarrow>
            (page < 0 \<and> 1 \<le> perPage \<and> - ?P < ?len)
          \<or> (page = 1 \<and> perPage < 0 \<and> - perPage < ?len)"
  proof cases
    case zero_size
    then show ?thesis unfolding e by simp
  next
    case zero_page
    then show ?thesis unfolding e by (simp add: relative_index_def)
  next
    case neg_pos
    then have "?P < 0" by (simp add: mult_neg_pos)
    with neg_pos show ?thesis
      unfolding e by (simp add: relative_index_def) linarith
  next
    case neg_neg
    then have "0 < ?P" by (simp add: mult_neg_neg)
    with neg_neg show ?thesis
      unfolding e by (simp add: relative_index_def)
  next
    case one_neg
    then show ?thesis
      unfolding e by (simp add: relative_index_def) linarith
  next
    case more_neg
    then have "(page - 1) * perPage < 0" by (simp add: mult_pos_neg)
    then have "?P - perPage < 0" by (simp add: page_start)
    with more_neg show ?thesis
      unfolding e by (simp add: relative_index_def) linarith
  qed
  have "paginatedPublicKeys idx page perPage = []" if "page = 0 \<or> perPage = 0"
    using that main by auto
  with main show ?thesis by blast
qed

theorem page_slice_below_one_witness:
  "paginatedPublicKeys [''k1'', ''k2'', ''k3''] 0 5 = []
   \<and> paginatedPublicKeys [''k1'', ''k2'', ''k3''] 2 0 = []
   \<and> paginatedPublicKeys [''k1'', ''k2'', ''k3''] 3 (- 1) = []"
  using page_slice_below_one [of 0 5 "[''k1'', ''k2'', ''k3'']"]
        page_slice_below_one [of 2 0 "[''k1'', ''k2'', ''k3'']"]
        page_slice_below_one [of 3 "- 1" "[''k1'', ''k2'', ''k3'']"]
  by simp

theorem page_slice_below_one_not_empty:
  "paginatedPublicKeys [''k1'', ''k2''] 1 (- 1) = [''k1'']
   \<and> paginatedPublicKeys [''k1'', ''k2'', ''k3'', ''k4'', ''k5'', ''k6'', ''k7''] (- 1) 5 = [''k1'', ''k2'']"
  by (simp add: paginatedPublicKeys_def js_slice_def relative_index_def)

subsection \<open>When the Index is rebuilt\<close>

lemma prefetchAccounts_discovery_calls:
  "discovery_calls (snd (prefetchAccounts c search st)) =
     discovery_calls st @ [GetProgramAccounts STUDENT_INTRO_PROGRAM_ID (1, 12) (search_filters search)]"
  by (simp add: discovery_calls_def prefetchAccounts_log)

text \<open>
  Claim C1, as the code has it. \<^verbatim>\<open>fetchPage\<close> makes the discovery call of a rebuild exactly
  when the Index is empty or \<^verbatim>\<open>reload\<close> is set, and then with the filter of this call. No
  filter is cached and none is compared: on a non-empty Index with \<^verbatim>\<open>reload = false\<close> the
  call does the same for every filter, and serves the page from the Index as it is.
\<close>
theorem rebuild_iff_empty_or_reload:
  "discovery_calls (snd (fetchPage d c page perPage search reload st))
     = discovery_calls st
       @ (if accounts st = [] \<or> reload
          then [GetProgramAccounts STUDENT_INTRO_PROGRAM_ID (1, 12) (search_filters search)]
          else [])
   \<and> (accounts st \<noteq> [] \<longrightarrow>
        fetchPage d c page perPage search False st = fetchPage d c page perPage search' False st)"
proof -
  have calls: "discovery_calls (snd (fetchPage d c page perPage search reload st))
     = discovery_calls st
       @ (if accounts st = [] \<or> reload
          then [GetProgramAccounts STUDENT_INTRO_PROGRAM_ID (1, 12) (search_filters search)]
          else [])"
  proof (cases "accounts st = [] \<or> reload")
    case False
    then show ?thesis
      by (simp add: fetchPage_serve_page serve_page_discovery_calls)
  next
    case True
    show ?thesis
    proof (cases "fst (prefetchAccounts c search st)")
      case (Inl e)
      show ?thesis using True
        by (simp add: fetchPage_rebuild_error [OF True Inl] prefetchAccounts_discovery_calls)
    next
      case (Inr u)
      then have "fst (prefetchAccounts c search st) = Inr ()" by simp
      then show ?thesis using True
        by (simp add: fetchPage_rebuild_ok [OF True] serve_page_discovery_calls
              prefetchAccounts_discovery_calls)
    qed
  qed
  have "fetchPage d c page perPage search False st = fetchPage d c page perPage search' False st"
    if "accounts st \<noteq> []"
    using that by (simp add: fetchPage_cached)
  with calls show ?thesis by blast
qed

lemma text_encode_Bob: "text_encode ''Bob'' = [66, 111, 98]"
  by (simp add: text_encode_def)

lemma scenario_discovery:
  "getProgramAccounts (ledger_connection scenario_ledger) STUDENT_INTRO_PROGRAM_ID (1, 12)
       (search_filters [])
     = Inr [discovered ''key-Bob'' (account_bytes 1 (text_encode ''Bob'') (text_encode ''hello'')),
            discovered ''key-Alice'' (account_bytes 1 (text_encode ''Alice'') (text_encode ''hi'')),
            discovered ''key-amy'' (account_bytes 1 (text_encode ''amy'') (text_encode ''hey''))]"
  by (simp add: search_filters_def ledger_connection_def scenario_ledger_def discovered_def)

lemma compared_bytes_text:
  assumes "length s < 100"
  shows "compared_bytes (discovered k (account_bytes f (text_encode s) m)) = take 8 (text_encode s)"
  using assms by (intro compared_bytes_discovered) (simp add: text_encode_def)

lemma length_data_discovered:
  "4 \<le> length (data (discovered k (account_bytes f name msg)))"
  by (simp add: data_discovered length_u32le)

lemma scenario_sorted:
  "array_sort sort_compare
     [discovered ''key-Bob'' (account_bytes 1 (text_encode ''Bob'') (text_encode ''hello'')),
      discovered ''key-Alice'' (account_bytes 1 (text_encode ''Alice'') (text_encode ''hi'')),
      discovered ''key-amy'' (account_bytes 1 (text_encode ''amy'') (text_encode ''hey''))]
   = Inr [discovered ''key-Alice'' (account_bytes 1 (text_encode ''Alice'') (text_encode ''hi'')),
          discovered ''key-Bob'' (account_bytes 1 (text_encode ''Bob'') (text_encode ''hello'')),
          discovered ''key-amy'' (account_bytes 1 (text_encode ''amy'') (text_encode ''hey''))]"
proof -
  have "sort_key compared_bytes
     [discovered ''key-Bob'' (account_bytes 1 (text_encode ''Bob'') (text_encode ''hello'')),
      discovered ''key-Alice'' (account_bytes 1 (text_encode ''Alice'') (text_encode ''hi'')),
      discovered ''key-amy'' (account_bytes 1 (text_encode ''amy'') (text_encode ''hey''))]
   = [discovered ''key-Alice'' (account_bytes 1 (text_encode ''Alice'') (text_encode ''hi'')),
      discovered ''key-Bob'' (account_bytes 1 (text_encode ''Bob'') (text_encode ''hello'')),
      discovered ''key-amy'' (account_bytes 1 (text_encode ''amy'') (text_encode ''hey''))]"
    by (simp add: sort_key_simps compared_bytes_text) (simp add: text_encode_def)
  then show ?thesis
    by (subst array_sort_all_long) (simp_all add: length_data_discovered)
qed

lemma pubkey_discovered: "pubkey (discovered k bytes) = k"
  by (simp add: discovered_def)

lemma prefetchAccounts_sorted:
  assumes "getProgramAccounts c STUDENT_INTRO_PROGRAM_ID (1, 12) (search_filters search) = Inr accts"
    and "array_sort sort_compare accts = Inr sorted_accts"
  shows "prefetchAccounts c search st
           = (Inr (), \<lparr>accounts = map pubkey sorted_accts,
                rpc_log = rpc_log st
                  @ [GetProgramAccounts STUDENT_INTRO_PROGRAM_ID (1, 12) (search_filters search)]\<rparr>)"
  using assms by (simp add: prefetchAccounts_cases)

lemma scenario_rebuild:
  "prefetchAccounts (ledger_connection scenario_ledger) [] st
     = (Inr (), \<lparr>accounts = [''key-Alice'', ''key-Bob'', ''key-amy''],
                rpc_log = rpc_log st @ [GetProgramAccounts STUDENT_INTRO_PROGRAM_ID (1, 12) []]\<rparr>)"
  using prefetchAccounts_sorted [OF scenario_discovery scenario_sorted, of st]
  by (simp add: pubkey_discovered search_filters_def)

lemma layout_deserialize_text:
  assumes "length s < 100" and "length m < 100"
  shows "layout_deserialize (Some (account_bytes f (text_encode s) (text_encode m)))
           = Some (text_encode s, text_encode m)"
  using assms by (intro layout_deserialize_account) (simp_all add: text_encode_def)

lemma scenario_batch:
  "getMultipleAccountsInfo (ledger_connection scenario_ledger) [''key-Alice'', ''key-Bob'', ''key-amy'']
     = Inr [Some (account_bytes 1 (text_encode ''Alice'') (text_encode ''hi'')),
            Some (account_bytes 1 (text_encode ''Bob'') (text_encode ''hello'')),
            Some (account_bytes 1 (text_encode ''amy'') (text_encode ''hey''))]"
  by (simp add: ledger_connection_def scenario_ledger_def)

lemma scenario_page:
  "serve_page layout_deserialize (ledger_connection scenario_ledger) 1 5
     \<lparr>accounts = [''key-Alice'', ''key-Bob'', ''key-amy''], rpc_log = calls\<rparr>
   = (Inr [(text_encode ''Alice'', text_encode ''hi''), (text_encode ''Bob'', text_encode ''hello''),
           (text_encode ''amy'', text_encode ''hey'')],
      \<lparr>accounts = [''key-Alice'', ''key-Bob'', ''key-amy''],
       rpc_log = calls @ [GetMultipleAccountsInfo [''key-Alice'', ''key-Bob'', ''key-amy'']]\<rparr>)"
  by (simp add: serve_page_def Let_def page_one_of_three scenario_batch studentIntros_decoded
        layout_deserialize_text)

lemma scenario_index:
  "snd (prefetchAccounts (ledger_connection scenario_ledger) [] empty_coordinator)
     = \<lparr>accounts = [''key-Alice'', ''key-Bob'', ''key-amy''],
        rpc_log = [GetProgramAccounts STUDENT_INTRO_PROGRAM_ID (1, 12) []]\<rparr>"
  by (simp add: scenario_rebuild empty_coordinator_def)

lemma scenario_discovery_Bob:
  "getProgramAccounts (ledger_connection scenario_ledger) STUDENT_INTRO_PROGRAM_ID (1, 12)
       (search_filters ''Bob'')
     = Inr [discovered ''key-Bob'' (account_bytes 1 (text_encode ''Bob'') (text_encode ''hello''))]"
  by (simp add: search_filters_def ledger_connection_def scenario_ledger_def discovered_def
        account_bytes_def borsh_string_def u32le_def text_encode_def)

lemma scenario_rebuild_Bob:
  "accounts (snd (prefetchAccounts (ledger_connection scenario_ledger) ''Bob'' st)) = [''key-Bob'']"
proof -
  have "array_sort sort_compare
          [discovered ''key-Bob'' (account_bytes 1 (text_encode ''Bob'') (text_encode ''hello''))]
        = Inr [discovered ''key-Bob'' (account_bytes 1 (text_encode ''Bob'') (text_encode ''hello''))]"
    by simp
  from prefetchAccounts_sorted [OF scenario_discovery_Bob this, of st] show ?thesis
    by (simp add: pubkey_discovered)
qed

theorem stale_index_served_for_other_filter:
  "discovery_calls (snd (fetchPage layout_deserialize (ledger_connection scenario_ledger) 1 5 ''Bob'' False
       (snd (prefetchAccounts (ledger_connection scenario_ledger) [] empty_coordinator))))
     = [GetProgramAccounts STUDENT_INTRO_PROGRAM_ID (1, 12) []]
   \<and> fst (fetchPage layout_deserialize (ledger_connection scenario_ledger) 1 5 ''Bob'' False
       (snd (prefetchAccounts (ledger_connection scenario_ledger) [] empty_coordinator)))
     = Inr [(text_encode ''Alice'', text_encode ''hi''), (text_encode ''Bob'', text_encode ''hello''),
            (text_encode ''amy'', text_encode ''hey'')]
   \<and> accounts (snd (prefetchAccounts (ledger_connection scenario_ledger) ''Bob'' empty_coordinator))
     = [''key-Bob'']"
  by (simp add: scenario_index fetchPage_cached scenario_page scenario_rebuild_Bob
        discovery_calls_def)

theorem rebuild_iff_empty_or_reload_witness:
  "discovery_calls (snd (fetchPage layout_deserialize (ledger_connection scenario_ledger) 1 5 ''Bob'' True
       \<lparr>accounts = [''key-Alice'', ''key-Bob'', ''key-amy''], rpc_log = []\<rparr>))
     = [GetProgramAccounts STUDENT_INTRO_PROGRAM_ID (1, 12) [Memcmp 5 (text_encode ''Bob'')]]
   \<and> fetchPage layout_deserialize (ledger_connection scenario_ledger) 1 5 ''Bob'' False
       \<lparr>accounts = [''key-Alice'', ''key-Bob'', ''key-amy''], rpc_log = []\<rparr>
     = fetchPage layout_deserialize (ledger_connection scenario_ledger) 1 5 [] False
       \<lparr>accounts = [''key-Alice'', ''key-Bob'', ''key-amy''], rpc_log = []\<rparr>"
  using rebuild_iff_empty_or_reload [of layout_deserialize "ledger_connection scenario_ledger" 1 5
          "''Bob''" True "\<lparr>accounts = [''key-Alice'', ''key-Bob'', ''key-amy''], rpc_log = []\<rparr>" "[]"]
  by (simp add: discovery_calls_def search_filters_def)

subsection \<open>The order of the Index\<close>

lemma prefetchAccounts_Inr:
  assumes "getProgramAccounts c STUDENT_INTRO_PROGRAM_ID (1, 12) (search_filters search) = Inr accts"
    and "prefetchAccounts c search st = (Inr (), st')"
  shows "accounts st' = map pubkey (sort_key compared_bytes accts)"
proof -
  from assms obtain sorted_accts where s: "array_sort sort_compare accts = Inr sorted_accts"
    by (auto simp: prefetchAccounts_cases split: sum.splits)
  from prefetchAccounts_sorted [OF assms(1) s, of st] assms(2)
  have "accounts st' = map pubkey sorted_accts" by auto
  with array_sort_Inr [OF s] show ?thesis by simp
qed

text \<open>
  Claim C3, as the code has it. After a successful rebuild the Index holds the keys of
  the discovered accounts, each once, stably sorted by the bytes the comparator reads
  from the 12-byte data slice: the name cut to its first 8 bytes (the whole name when it
  has at most 8 bytes). These bytes are compared as unsigned bytes in lexicographic
  order, a proper prefix first; accounts whose compared bytes are equal keep the order of
  discovery. No case folding takes place.
\<close>
theorem rebuild_sorts_by_compared_bytes:
  assumes "getProgramAccounts c STUDENT_INTRO_PROGRAM_ID (1, 12) (search_filters search) = Inr accts"
    and "prefetchAccounts c search st = (Inr (), st')"
  shows "accounts st' = map pubkey (sort_key compared_bytes accts)
       \<and> sorted (map compared_bytes (sort_key compared_bytes accts))
       \<and> mset (sort_key compared_bytes accts) = mset accts
       \<and> (\<forall>bs. filter (\<lambda>a. compared_bytes a = bs) (sort_key compared_bytes accts)
                  = filter (\<lambda>a. compared_bytes a = bs) accts)
       \<and> (\<forall>k f name msg. length name < 2 ^ 32 \<longrightarrow>
             compared_bytes (discovered k (account_bytes f name msg)) = take 8 name)"
proof -
  have "\<forall>bs. filter (\<lambda>a. compared_bytes a = bs) (sort_key compared_bytes accts)
                  = filter (\<lambda>a. compared_bytes a = bs) accts"
    by (simp add: filter_sort [symmetric] sort_key_stable)
  moreover have "\<forall>k f name msg. length name < 2 ^ 32 \<longrightarrow>
             compared_bytes (discovered k (account_bytes f name msg)) = take 8 name"
    by (simp add: compared_bytes_discovered)
  ultimately show ?thesis
    using prefetchAccounts_Inr [OF assms] by simp
qed

theorem rebuild_sorts_by_compared_bytes_witness:
  "accounts (snd (prefetchAccounts (ledger_connection scenario_ledger) [] empty_coordinator))
     = [''key-Alice'', ''key-Bob'', ''key-amy'']
   \<and> map compared_bytes (sort_key compared_bytes
        [discovered ''key-Bob'' (account_bytes 1 (text_encode ''Bob'') (text_encode ''hello'')),
         discovered ''key-Alice'' (account_bytes 1 (text_encode ''Alice'') (text_encode ''hi'')),
         discovered ''key-amy'' (account_bytes 1 (text_encode ''amy'') (text_encode ''hey''))])
     = [text_encode ''Alice'', text_encode ''Bob'', text_encode ''amy'']"
proof -
  let ?accts = "[discovered ''key-Bob'' (account_bytes 1 (text_encode ''Bob'') (text_encode ''hello'')),
         discovered ''key-Alice'' (account_bytes 1 (text_encode ''Alice'') (text_encode ''hi'')),
         discovered ''key-amy'' (account_bytes 1 (text_encode ''amy'') (text_encode ''hey''))]"
  have ok: "prefetchAccounts (ledger_connection scenario_ledger) [] empty_coordinator
          = (Inr (), snd (prefetchAccounts (ledger_connection scenario_ledger) [] empty_coordinator))"
    by (simp add: scenario_rebuild)
  have s: "sort_key compared_bytes ?accts
     = [discovered ''key-Alice'' (account_bytes 1 (text_encode ''Alice'') (text_encode ''hi'')),
        discovered ''key-Bob'' (account_bytes 1 (text_encode ''Bob'') (text_encode ''hello'')),
        discovered ''key-amy'' (account_bytes 1 (text_encode ''amy'') (text_encode ''hey''))]"
    by (simp add: sort_key_simps compared_bytes_text) (simp add: text_encode_def)
  from rebuild_sorts_by_compared_bytes [OF scenario_discovery ok]
  have "accounts (snd (prefetchAccounts (ledger_connection scenario_ledger) [] empty_coordinator))
          = map pubkey (sort_key compared_bytes ?accts)"
    by blast
  then show ?thesis
    unfolding s by (simp add: pubkey_discovered compared_bytes_text) (simp add: text_encode_def)
qed

lemma long_names_discovery:
  "getProgramAccounts (ledger_connection long_names_ledger) STUDENT_INTRO_PROGRAM_ID (1, 12)
       (search_filters [])
     = Inr [discovered ''key-1'' (account_bytes 1 (text_encode ''AAAAAAAAB'') (text_encode ''first'')),
            discovered ''key-2'' (account_bytes 1 (text_encode ''AAAAAAAAA'') (text_encode ''second''))]"
  by (simp add: search_filters_def ledger_connection_def long_names_ledger_def discovered_def)

lemma long_names_sorted:
  "array_sort sort_compare
     [discovered ''key-1'' (account_bytes 1 (text_encode ''AAAAAAAAB'') (text_encode ''first'')),
      discovered ''key-2'' (account_bytes 1 (text_encode ''AAAAAAAAA'') (text_encode ''second''))]
   = Inr [discovered ''key-1'' (account_bytes 1 (text_encode ''AAAAAAAAB'') (text_encode ''first'')),
          discovered ''key-2'' (account_bytes 1 (text_encode ''AAAAAAAAA'') (text_encode ''second''))]"
proof -
  have "sort_key compared_bytes
     [discovered ''key-1'' (account_bytes 1 (text_encode ''AAAAAAAAB'') (text_encode ''first'')),
      discovered ''key-2'' (account_bytes 1 (text_encode ''AAAAAAAAA'') (text_encode ''second''))]
   = [discovered ''key-1'' (account_bytes 1 (text_encode ''AAAAAAAAB'') (text_encode ''first'')),
      discovered ''key-2'' (account_bytes 1 (text_encode ''AAAAAAAAA'') (text_encode ''second''))]"
    by (simp add: sort_key_simps compared_bytes_text) (simp add: text_encode_def)
  then show ?thesis
    by (subst array_sort_all_long) (simp_all add: length_data_discovered)
qed

theorem index_not_sorted_by_full_name:
  "prefetchAccounts (ledger_connection long_names_ledger) [] empty_coordinator
     = (Inr (), \<lparr>accounts = [''key-1'', ''key-2''],
                 rpc_log = [GetProgramAccounts STUDENT_INTRO_PROGRAM_ID (1, 12) []]\<rparr>)
   \<and> map_of long_names_ledger ''key-1''
       = Some (account_bytes 1 (text_encode ''AAAAAAAAB'') (text_encode ''first''))
   \<and> map_of long_names_ledger ''key-2''
       = Some (account_bytes 1 (text_encode ''AAAAAAAAA'') (text_encode ''second''))
   \<and> text_encode ''AAAAAAAAA'' < text_encode ''AAAAAAAAB''"
proof -
  have "prefetchAccounts (ledger_connection long_names_ledger) [] empty_coordinator
     = (Inr (), \<lparr>accounts = [''key-1'', ''key-2''],
                 rpc_log = [GetProgramAccounts STUDENT_INTRO_PROGRAM_ID (1, 12) []]\<rparr>)"
    using prefetchAccounts_sorted [OF long_names_discovery long_names_sorted, of empty_coordinator]
    by (simp add: pubkey_discovered search_filters_def empty_coordinator_def)
  moreover have "text_encode ''AAAAAAAAA'' < text_encode ''AAAAAAAAB''"
    by (simp add: text_encode_def)
  ultimately show ?thesis
    by (simp add: long_names_ledger_def)
qed

subsection \<open>What the comparator sees\<close>

text \<open>
  Claim C9. The discovery call asks for the data slice of offset 1 and length 12, so for
  two accounts of the layout the comparator compares the names cut to their first 8
  bytes: its result is negative, zero or positive as the first cut name is below, equal
  to or above the second in lexicographic byte order (a proper prefix first). For two
  names of at least 8 bytes that agree on their first 8 bytes it returns 0, whatever
  follows in the names.
\<close>
theorem comparator_sees_eight_name_bytes:
  assumes "length n1 < 2 ^ 32" and "length n2 < 2 ^ 32"
  shows "\<exists>r. sort_compare (discovered k1 (account_bytes f1 n1 m1))
                          (discovered k2 (account_bytes f2 n2 m2)) = Inr r
             \<and> (r < 0 \<longleftrightarrow> take 8 n1 < take 8 n2)
             \<and> (r = 0 \<longleftrightarrow> take 8 n1 = take 8 n2)
             \<and> (8 \<le> length n1 \<and> 8 \<le> length n2 \<and> take 8 n1 = take 8 n2 \<longrightarrow> r = 0)"
proof -
  let ?a = "discovered k1 (account_bytes f1 n1 m1)"
  let ?b = "discovered k2 (account_bytes f2 n2 m2)"
  have "sort_compare ?a ?b = Inr (cmp3 (compared_bytes ?a) (compared_bytes ?b))"
    by (rule sort_compare_good) (rule length_data_discovered)+
  then have "sort_compare ?a ?b = Inr (cmp3 (take 8 n1) (take 8 n2))"
    by (simp add: compared_bytes_discovered [OF assms(1)] compared_bytes_discovered [OF assms(2)])
  then show ?thesis
    by (simp add: cmp3_less cmp3_eq)
qed

theorem comparator_sees_eight_name_bytes_witness:
  "sort_compare
     (discovered ''key-1'' (account_bytes 1 (text_encode ''AAAAAAAAB'') (text_encode ''first'')))
     (discovered ''key-2'' (account_bytes 1 (text_encode ''AAAAAAAAA'') (text_encode ''second'')))
   = Inr 0"
proof -
  have l: "length (text_encode ''AAAAAAAAB'') < 2 ^ 32" "length (text_encode ''AAAAAAAAA'') < 2 ^ 32"
    by (simp_all add: text_encode_def)
  have t: "8 \<le> length (text_encode ''AAAAAAAAB'')" "8 \<le> length (text_encode ''AAAAAAAAA'')"
       "take 8 (text_encode ''AAAAAAAAB'') = take 8 (text_encode ''AAAAAAAAA'')"
    by (simp_all add: text_encode_def)
  from comparator_sees_eight_name_bytes [OF l, of "''key-1''" 1 "text_encode ''first''"
      "''key-2''" 1 "text_encode ''second''"] t
  show ?thesis by auto
qed

subsection \<open>A data slice without its length bytes\<close>

lemma prefetchAccounts_sort_error:
  assumes "getProgramAccounts c STUDENT_INTRO_PROGRAM_ID (1, 12) (search_filters search) = Inr accts"
    and "array_sort sort_compare accts = Inl e"
  shows "prefetchAccounts c search st
           = (Inl e, st\<lparr>rpc_log := rpc_log st
                @ [GetProgramAccounts STUDENT_INTRO_PROGRAM_ID (1, 12) (search_filters search)]\<rparr>)"
  using assms by (simp add: prefetchAccounts_cases)

lemma array_sort_single: "array_sort comparefn [a] = Inr [a]"
  by simp

lemma prefetchAccounts_single:
  assumes "getProgramAccounts c STUDENT_INTRO_PROGRAM_ID (1, 12) (search_filters search) = Inr [a]"
  shows "prefetchAccounts c search st
           = (Inr (), \<lparr>accounts = [pubkey a],
                rpc_log = rpc_log st
                  @ [GetProgramAccounts STUDENT_INTRO_PROGRAM_ID (1, 12) (search_filters search)]\<rparr>)"
  using prefetchAccounts_sorted [OF assms array_sort_single, of st] by simp

text \<open>
  Claim C10, as the code has it. When discovery returns at least two accounts and one
  of them carries a data slice of fewer than 4 bytes, the comparator is called on that
  account, \<^verbatim>\<open>readUInt32LE\<close> throws a \<^verbatim>\<open>RangeError\<close>, \<^verbatim>\<open>prefetchAccounts\<close> fails as a whole and
  the Index stays as it was; so does a \<^verbatim>\<open>fetchPage\<close> call that rebuilds. When discovery
  returns exactly one account, the sort returns it without consulting the comparator
  (its result is the same for every comparator, also one that always throws), the
  rebuild succeeds and the key of that account becomes the Index, whatever its data
  slice; a \<^verbatim>\<open>fetchPage\<close> call that rebuilds then goes on to serve the page from that Index.
\<close>
theorem short_slice_aborts_rebuild:
  assumes "getProgramAccounts c STUDENT_INTRO_PROGRAM_ID (1, 12) (search_filters search) = Inr accts"
  shows "(2 \<le> length accts \<and> a \<in> set accts \<and> length (data a) < 4 \<longrightarrow>
            fst (prefetchAccounts c search st) = Inl RangeError
          \<and> accounts (snd (prefetchAccounts c search st)) = accounts st
          \<and> (accounts st = [] \<or> reload \<longrightarrow>
               fst (fetchPage d c page perPage search reload st) = Inl RangeError
             \<and> accounts (snd (fetchPage d c page perPage search reload st)) = accounts st))
       \<and> (accts = [b] \<longrightarrow>
            (\<forall>comparefn. array_sort comparefn accts = Inr accts)
          \<and> prefetchAccounts c search st
              = (Inr (), \<lparr>accounts = [pubkey b],
                   rpc_log = rpc_log st
                     @ [GetProgramAccounts STUDENT_INTRO_PROGRAM_ID (1, 12) (search_filters search)]\<rparr>)
          \<and> (accounts st = [] \<or> reload \<longrightarrow>
               fetchPage d c page perPage search reload st
                 = serve_page d c page perPage
                     \<lparr>accounts = [pubkey b],
                      rpc_log = rpc_log st
                        @ [GetProgramAccounts STUDENT_INTRO_PROGRAM_ID (1, 12) (search_filters search)]\<rparr>))"
proof -
  have many: "fst (prefetchAccounts c search st) = Inl RangeError
          \<and> accounts (snd (prefetchAccounts c search st)) = accounts st
          \<and> (accounts st = [] \<or> reload \<longrightarrow>
               fst (fetchPage d c page perPage search reload st) = Inl RangeError
             \<and> accounts (snd (fetchPage d c page perPage search reload st)) = accounts st)"
    if len: "2 \<le> length accts" and mem: "a \<in> set accts" and short: "length (data a) < 4"
  proof -
    have s: "array_sort sort_compare accts = Inl RangeError"
      using len mem short by (rule array_sort_short)
    have p: "fst (prefetchAccounts c search st) = Inl RangeError"
            "accounts (snd (prefetchAccounts c search st)) = accounts st"
      by (simp_all add: prefetchAccounts_sort_error [OF assms s])
    have "fst (fetchPage d c page perPage search reload st) = Inl RangeError
            \<and> accounts (snd (fetchPage d c page perPage search reload st)) = accounts st"
      if "accounts st = [] \<or> reload"
      using p by (simp add: fetchPage_rebuild_error [OF that p(1)])
    with p show ?thesis by blast
  qed
  have one: "(\<forall>comparefn. array_sort comparefn accts = Inr accts)
          \<and> prefetchAccounts c search st
              = (Inr (), \<lparr>accounts = [pubkey b],
                   rpc_log = rpc_log st
                     @ [GetProgramAccounts STUDENT_INTRO_PROGRAM_ID (1, 12) (search_filters search)]\<rparr>)
          \<and> (accounts st = [] \<or> reload \<longrightarrow>
               fetchPage d c page perPage search reload st
                 = serve_page d c page perPage
                     \<lparr>accounts = [pubkey b],
                      rpc_log = rpc_log st
                        @ [GetProgramAccounts STUDENT_INTRO_PROGRAM_ID (1, 12) (search_filters search)]\<rparr>)"
    if single: "accts = [b]"
  proof -
    have p: "prefetchAccounts c search st
              = (Inr (), \<lparr>accounts = [pubkey b],
                   rpc_log = rpc_log st
                     @ [GetProgramAccounts STUDENT_INTRO_PROGRAM_ID (1, 12) (search_filters search)]\<rparr>)"
      using assms single by (simp add: prefetchAccounts_single)
    have "fetchPage d c page perPage search reload st
                 = serve_page d c page perPage
                     \<lparr>accounts = [pubkey b],
                      rpc_log = rpc_log st
                        @ [GetProgramAccounts STUDENT_INTRO_PROGRAM_ID (1, 12) (search_filters search)]\<rparr>"
      if r: "accounts st = [] \<or> reload"
      using fetchPage_rebuild_ok [OF r, of c search d page perPage] by (simp add: p)
    with p single show ?thesis by (simp add: array_sort_single)
  qed
  from many one show ?thesis by blast
qed

lemma short_and_valid_discovery:
  "getProgramAccounts (ledger_connection short_and_valid_ledger) STUDENT_INTRO_PROGRAM_ID (1, 12)
       (search_filters [])
     = Inr [discovered ''key-short'' [1, 7],
            discovered ''key-Bob'' (account_bytes 1 (text_encode ''Bob'') (text_encode ''hello''))]"
  by (simp add: search_filters_def ledger_connection_def short_and_valid_ledger_def discovered_def)

lemma short_discovery:
  "getProgramAccounts (ledger_connection short_ledger) STUDENT_INTRO_PROGRAM_ID (1, 12)
       (search_filters [])
     = Inr [discovered ''key-short'' [1, 7]]"
  by (simp add: search_filters_def ledger_connection_def short_ledger_def discovered_def)

theorem short_slice_aborts_rebuild_witness:
  "fst (prefetchAccounts (ledger_connection short_and_valid_ledger) []
          \<lparr>accounts = [''key-old''], rpc_log = []\<rparr>) = Inl RangeError
   \<and> accounts (snd (prefetchAccounts (ledger_connection short_and_valid_ledger) []
          \<lparr>accounts = [''key-old''], rpc_log = []\<rparr>)) = [''key-old'']
   \<and> fst (fetchPage layout_deserialize (ledger_connection short_and_valid_ledger) 1 5 [] True
          \<lparr>accounts = [''key-old''], rpc_log = []\<rparr>) = Inl RangeError
   \<and> array_sort (\<lambda>x y. Inl RangeError) [discovered ''key-short'' [1, 7]]
        = Inr [discovered ''key-short'' [1, 7]]
   \<and> accounts (snd (prefetchAccounts (ledger_connection short_ledger) []
          \<lparr>accounts = [''key-old''], rpc_log = []\<rparr>)) = [''key-short'']"
proof -
  let ?accts = "[discovered ''key-short'' [1, 7],
            discovered ''key-Bob'' (account_bytes 1 (text_encode ''Bob'') (text_encode ''hello''))]"
  let ?st = "\<lparr>accounts = [''key-old''], rpc_log = []\<rparr>"
  have h2: "2 \<le> length ?accts" by simp
  have h3: "discovered ''key-short'' [1, 7] \<in> set ?accts" by simp
  have h4: "length (data (discovered ''key-short'' [1, 7])) < 4"
    by (simp add: discovered_def data_slice_def)
  from short_slice_aborts_rebuild [OF short_and_valid_discovery,
      where a = "discovered ''key-short'' [1, 7]" and b = "discovered ''key-short'' [1, 7]"
        and st = ?st and reload = True and d = layout_deserialize and page = 1 and perPage = 5]
      h2 h3 h4
  have many: "fst (prefetchAccounts (ledger_connection short_and_valid_ledger) [] ?st) = Inl RangeError
     \<and> accounts (snd (prefetchAccounts (ledger_connection short_and_valid_ledger) [] ?st)) = [''key-old'']
     \<and> fst (fetchPage layout_deserialize (ledger_connection short_and_valid_ledger) 1 5 [] True ?st)
         = Inl RangeError"
    by simp
  from short_slice_aborts_rebuild [OF short_discovery,
      where a = "discovered ''key-short'' [1, 7]" and b = "discovered ''key-short'' [1, 7]"
        and st = ?st and reload = True and d = layout_deserialize and page = 1 and perPage = 5]
  have one: "array_sort (\<lambda>x y. Inl RangeError) [discovered ''key-short'' [1, 7]]
        = Inr [discovered ''key-short'' [1, 7]]
     \<and> accounts (snd (prefetchAccounts (ledger_connection short_ledger) [] ?st)) = [''key-short'']"
    by (simp add: pubkey_discovered)
  from many one show ?thesis by simp
qed

theorem single_short_account_indexed:
  "length (data (discovered ''key-short'' [1, 7])) < 4
   \<and> getProgramAccounts (ledger_connection short_ledger) STUDENT_INTRO_PROGRAM_ID (1, 12)
       (search_filters []) = Inr [discovered ''key-short'' [1, 7]]
   \<and> prefetchAccounts (ledger_connection short_ledger) [] \<lparr>accounts = [''key-old''], rpc_log = []\<rparr>
     = (Inr (), \<lparr>accounts = [''key-short''],
                 rpc_log = [GetProgramAccounts STUDENT_INTRO_PROGRAM_ID (1, 12) []]\<rparr>)"
proof -
  have s: "array_sort sort_compare [discovered ''key-short'' [1, 7]]
             = Inr [discovered ''key-short'' [1, 7]]"
    by simp
  have "length (data (discovered ''key-short'' [1, 7])) < 4"
    by (simp add: discovered_def data_slice_def)
  moreover have "prefetchAccounts (ledger_connection short_ledger) []
       \<lparr>accounts = [''key-old''], rpc_log = []\<rparr>
     = (Inr (), \<lparr>accounts = [''key-short''],
                 rpc_log = [GetProgramAccounts STUDENT_INTRO_PROGRAM_ID (1, 12) []]\<rparr>)"
    using prefetchAccounts_sorted [OF short_discovery s, of "\<lparr>accounts = [''key-old''], rpc_log = []\<rparr>"]
    by (simp add: pubkey_discovered search_filters_def)
  ultimately show ?thesis using short_discovery by simp
qed

end
